theory Spec2Isabelle
  imports Main
begin

section \<open>JavaScript strings\<close>

text \<open>
  The component \<^verbatim>\<open>CharacterSchema.tsx\<close> edits two templates, the response and the
  history template, that refer to the fields of a schema by placeholders \<^verbatim>\<open>{{name}}\<close>.
  A JavaScript string is a sequence of code units; it is modelled as a \<^typ>\<open>string\<close>,
  one \<^typ>\<open>char\<close> for each code unit, so that \<^term>\<open>length\<close> is \<^verbatim>\<open>.length\<close>.
\<close>

text \<open>
  \<^verbatim>\<open>s.slice(b, e)\<close>: a negative index counts from the end, every index is clamped to
  the string, and the result is empty when the end is not after the start.
\<close>

definition js_slice :: "string \<Rightarrow> int \<Rightarrow> int \<Rightarrow> string" where
  "js_slice s b e =
     (let len = int (length s);
          lo = (if b < 0 then max (len + b) 0 else min b len);
          hi = (if e < 0 then max (len + e) 0 else min e len)
      in take (nat (hi - lo)) (drop (nat lo) s))"

text \<open>\<^verbatim>\<open>s.slice(b)\<close>: the end defaults to the length of the string.\<close>

definition js_slice_from :: "string \<Rightarrow> int \<Rightarrow> string" where
  "js_slice_from s b = js_slice s b (int (length s))"

definition js_startsWith :: "string \<Rightarrow> string \<Rightarrow> bool" where
  "js_startsWith s p \<longleftrightarrow> take (length p) s = p"

definition js_endsWith :: "string \<Rightarrow> string \<Rightarrow> bool" where
  "js_endsWith s p \<longleftrightarrow> length p \<le> length s \<and> drop (length s - length p) s = p"

text \<open>
  \<^verbatim>\<open>s.split(sep)\<close> for a string separator: the pieces between the occurrences of
  \<open>sep\<close>, found from left to right, the search resuming after each occurrence. The
  empty separator splits between code units (and gives no piece for the empty string).
\<close>

function js_split_sep :: "string \<Rightarrow> string \<Rightarrow> string list" where
  "js_split_sep sep [] = [[]]"
| "js_split_sep sep (c # cs) =
     (if sep \<noteq> [] \<and> js_startsWith (c # cs) sep
      then [] # js_split_sep sep (drop (length sep) (c # cs))
      else (case js_split_sep sep cs of
              [] \<Rightarrow> [[c]]
            | p # ps \<Rightarrow> (c # p) # ps))"
  by pat_completeness auto
termination
  by (relation "measure (\<lambda>(sep, s). length s)") auto

definition js_split :: "string \<Rightarrow> string \<Rightarrow> string list" where
  "js_split s sep = (if sep = [] then map (\<lambda>c. [c]) s else js_split_sep sep s)"

text \<open>\<^verbatim>\<open>xs.join(sep)\<close>.\<close>

fun js_join :: "string list \<Rightarrow> string \<Rightarrow> string" where
  "js_join [] sep = []"
| "js_join [x] sep = x"
| "js_join (x # y # ys) sep = x @ sep @ js_join (y # ys) sep"

section \<open>The placeholder grammar\<close>

text \<open>
  Modelled from the spec: \<^verbatim>\<open>JSON_NAME_RE\<close> is imported from \<^verbatim>\<open>/common/util\<close>, which is
  not among the sources. The spec gives the grammar it matches as
  \<^verbatim>\<open>\{\{([^{}]+)\}\}\<close>: two opening braces, a name of one or more code units none of
  which is a brace, two closing braces.

  \<open>JSON_NAME_RE_at s\<close> is the match of the expression at the very start of \<open>s\<close>. The
  name is the longest run of non-brace code units: a shorter one would be followed by
  a non-brace code unit and not by the closing braces, so backtracking finds nothing
  more.
\<close>

definition name_char :: "char \<Rightarrow> bool" where
  "name_char c \<longleftrightarrow> c \<noteq> CHR ''{'' \<and> c \<noteq> CHR ''}''"

definition JSON_NAME_RE_at :: "string \<Rightarrow> string option" where
  "JSON_NAME_RE_at s =
     (if js_startsWith s ''{{'' then
        (let nm = takeWhile name_char (drop 2 s);
             rest = dropWhile name_char (drop 2 s)
         in if nm \<noteq> [] \<and> js_startsWith rest ''}}''
            then Some (''{{'' @ nm @ ''}}'') else None)
      else None)"

lemma JSON_NAME_RE_at_length:
  "JSON_NAME_RE_at s = Some m \<Longrightarrow> 5 \<le> length m \<and> length m \<le> length s"
proof -
  assume a: "JSON_NAME_RE_at s = Some m"
  let ?b = "drop 2 s"
  let ?nm = "takeWhile name_char ?b"
  let ?rest = "dropWhile name_char ?b"
  from a have st: "js_startsWith s ''{{''" and ne: "?nm \<noteq> []"
    and cl: "js_startsWith ?rest ''}}''" and m: "m = ''{{'' @ ?nm @ ''}}''"
    by (auto simp: JSON_NAME_RE_at_def Let_def split: if_splits)
  from ne have "1 \<le> length ?nm" by (cases ?nm) auto
  with m have five: "5 \<le> length m" by simp
  from st have "2 \<le> length s"
    by (cases s; cases "tl s") (auto simp: js_startsWith_def)
  moreover from cl have "2 \<le> length ?rest"
    by (cases ?rest; cases "tl ?rest") (auto simp: js_startsWith_def)
  moreover have "length ?nm + length ?rest = length ?b"
    by (metis length_append takeWhile_dropWhile_id)
  ultimately have "length m \<le> length s" using m by simp
  with five show ?thesis by simp
qed

text \<open>
  \<^verbatim>\<open>s.match(JSON_NAME_RE())\<close>: the expression is global, so the result is the list of
  all matches, the search starting at the left and resuming after each match; it is
  \<^verbatim>\<open>null\<close>, here \<open>None\<close>, when there is no match.
\<close>

function match_all :: "string \<Rightarrow> string list" where
  "match_all [] = []"
| "match_all (c # cs) =
     (case JSON_NAME_RE_at (c # cs) of
        Some m \<Rightarrow> m # match_all (drop (length m) (c # cs))
      | None \<Rightarrow> match_all cs)"
  by pat_completeness auto
termination
proof (relation "measure length")
  show "wf (measure length)" by simp
next
  fix c cs m
  assume "JSON_NAME_RE_at (c # cs) = Some m"
  then have "5 \<le> length m" by (simp add: JSON_NAME_RE_at_length)
  then show "(drop (length m) (c # cs), c # cs) \<in> measure length" by simp
next
  fix c :: char and cs :: string
  show "(cs, c # cs) \<in> measure length" by simp
qed

definition js_match :: "string \<Rightarrow> string list option" where
  "js_match s = (case match_all s of [] \<Rightarrow> None | m # ms \<Rightarrow> Some (m # ms))"

section \<open>The placeholder validator\<close>

text \<open>
  The effect that validates the templates builds, for each buffer whose match is not
  \<^verbatim>\<open>null\<close>, the list \<^verbatim>\<open>bad\<close> of the names that are not fields of the candidate schema:
  \<^verbatim>\<open>
  for (const res of resVars) {
    const name = res.slice(2, -2)
    if (!names.has(name)) { bad.push(name) }
  }
  \<close>
\<close>

fun bad_names :: "string set \<Rightarrow> string list \<Rightarrow> string list" where
  "bad_names names [] = []"
| "bad_names names (res # rest) =
     (let name = js_slice res 2 (- 2)
      in if name \<notin> names then name # bad_names names rest else bad_names names rest)"

text \<open>
  The list \<^verbatim>\<open>bad\<close> of a buffer: \<open>None\<close> when the match is \<^verbatim>\<open>null\<close> and the branch that
  builds the list is skipped.
\<close>

definition bad_list :: "string \<Rightarrow> string set \<Rightarrow> string list option" where
  "bad_list text names = map_option (bad_names names) (js_match text)"

text \<open>
  The unresolved names of a buffer: the entries of \<^verbatim>\<open>bad\<close>, none when no list is built.
\<close>

definition unresolved :: "string \<Rightarrow> string set \<Rightarrow> string list" where
  "unresolved text names = (case bad_list text names of None \<Rightarrow> [] | Some bad \<Rightarrow> bad)"

text \<open>
  The error text of a buffer after the effect has run:
  \<^verbatim>\<open>if (resVars) { ...; setResErr(bad.length ? bad.join(', ') : '') }\<close>.
  When the match is \<^verbatim>\<open>null\<close> the setter is not called and the text stays as it was.
\<close>

definition next_err :: "string \<Rightarrow> string set \<Rightarrow> string \<Rightarrow> string" where
  "next_err text names err =
     (case bad_list text names of
        None \<Rightarrow> err
      | Some bad \<Rightarrow> (if length bad \<noteq> 0 then js_join bad '', '' else []))"

subsection \<open>The validator as the specification words it\<close>

text \<open>
  A string is a placeholder when it matches the whole grammar: at least five code
  units, two opening braces first, two closing braces last, and between them a name
  without a brace.
\<close>

definition placeholder_name :: "string \<Rightarrow> string" where
  "placeholder_name w = take (length w - 4) (drop 2 w)"

definition is_placeholder :: "string \<Rightarrow> bool" where
  "is_placeholder w \<longleftrightarrow>
     5 \<le> length w \<and> take 2 w = ''{{'' \<and> drop (length w - 2) w = ''}}'' \<and>
     list_all name_char (placeholder_name w)"

text \<open>All substrings of \<open>t\<close> that start at offset \<open>i\<close>, by length.\<close>

definition substrings_at :: "string \<Rightarrow> nat \<Rightarrow> string list" where
  "substrings_at t i = map (\<lambda>k. take k (drop i t)) [0..<Suc (length t - i)]"

text \<open>
  Every substring of \<open>t\<close> that is a placeholder, in the order of the offsets at which
  they start; nothing is said about overlaps.
\<close>

definition spec_placeholders :: "string \<Rightarrow> string list" where
  "spec_placeholders t =
     concat (map (\<lambda>i. filter is_placeholder (substrings_at t i)) [0..<length t])"

definition spec_unresolved :: "string \<Rightarrow> string set \<Rightarrow> string list" where
  "spec_unresolved t V = filter (\<lambda>n. n \<notin> V) (map placeholder_name (spec_placeholders t))"

section \<open>The editing session\<close>

subsection \<open>Data\<close>

text \<open>
  Modelled from the spec: the type \<^verbatim>\<open>JsonField\<close> is imported from \<^verbatim>\<open>/common/prompt\<close>, which
  is not among the sources. The spec describes a field as a name and a type with more
  metadata; the component reads the name only, and \<open>ftype\<close> is the name of the type.
\<close>

record JsonField =
  name :: string
  ftype :: string

text \<open>
  \<^verbatim>\<open>ResponseSchema\<close>, the triple that is inherited, imported, exported and saved:
  \<^verbatim>\<open>{ schema, response, history }\<close>.
\<close>

record ResponseSchema =
  rs_schema :: "JsonField list"
  rs_response :: string
  rs_history :: string

text \<open>
  What the component reads and writes of a \<^verbatim>\<open>HTMLTextAreaElement\<close>: its value and its
  selection.
\<close>

record textarea =
  ta_value :: string
  selectionStart :: nat
  selectionEnd :: nat

text \<open>
  Assigning \<^verbatim>\<open>ref.value\<close>: when the text changes the caret moves to its end.
  \<^verbatim>\<open>ref.setSelectionRange(a, b)\<close>: both ends are clamped to the text, and a start after
  the end is moved back to the end.
\<close>

definition set_value :: "string \<Rightarrow> textarea \<Rightarrow> textarea" where
  "set_value v r =
     (if v = ta_value r then r
      else r\<lparr>ta_value := v, selectionStart := length v, selectionEnd := length v\<rparr>)"

definition setSelectionRange :: "nat \<Rightarrow> nat \<Rightarrow> textarea \<Rightarrow> textarea" where
  "setSelectionRange a b r =
     (let e = min b (length (ta_value r)); st = min (min a (length (ta_value r))) e
      in r\<lparr>selectionStart := st, selectionEnd := e\<rparr>)"

record props =
  characterId :: "string option"
  presetId :: "string option"
  inherit :: "ResponseSchema option"

datatype buffer = Response | History

text \<open>The value of the signal \<^verbatim>\<open>auto\<close> that shows the suggestions of a buffer.\<close>

fun buffer_id :: "buffer \<Rightarrow> string" where
  "buffer_id Response = ''response''"
| "buffer_id History = ''history''"

text \<open>
  The state of one component: its properties, its signals (\<^verbatim>\<open>show\<close> is \<open>show_modal\<close>),
  the two textareas, and what it has sent to its collaborators, oldest first:
  the arguments of \<^verbatim>\<open>props.update\<close>, of \<^verbatim>\<open>characterStore.editPartialCharacter\<close>, of
  \<^verbatim>\<open>presetStore.updatePreset\<close> and of \<^verbatim>\<open>toastStore.error\<close>.
\<close>

record session =
  props :: props
  show_modal :: bool
  schema :: "JsonField list"
  showImport :: bool
  response :: string
  hist :: string
  candidate :: "JsonField list"
  auto :: string
  hotkey :: bool
  resErr :: string
  histErr :: string
  respRef :: textarea
  histRef :: textarea
  updates :: "ResponseSchema list"
  character_edits :: "(string \<times> ResponseSchema) list"
  preset_updates :: "(string \<times> ResponseSchema) list"
  toasts :: "string list"

subsection \<open>The validation effect and the signals it reads\<close>

text \<open>
  \<^verbatim>\<open>const names = new Set(sch.map((s) => s.name))\<close>, from the candidate schema.
\<close>

definition names_of :: "session \<Rightarrow> string set" where
  "names_of s = set (map name (candidate s))"

definition validation_effect :: "session \<Rightarrow> session" where
  "validation_effect s =
     s\<lparr>resErr := next_err (response s) (names_of s) (resErr s),
       histErr := next_err (hist s) (names_of s) (histErr s)\<rparr>"

text \<open>
  The effect reads \<^verbatim>\<open>response\<close>, \<^verbatim>\<open>hist\<close> and \<^verbatim>\<open>candidate\<close>, and runs again after a write
  to one of them that changes its value. A string is compared by value. An array is
  compared by identity: \<open>same\<close> says that the array written is the very object the
  signal holds, whose content is then \<open>v\<close>; such a write does not run the effect.
\<close>

definition setResponse :: "string \<Rightarrow> session \<Rightarrow> session" where
  "setResponse v s = (if v = response s then s else validation_effect (s\<lparr>response := v\<rparr>))"

definition setHistory :: "string \<Rightarrow> session \<Rightarrow> session" where
  "setHistory v s = (if v = hist s then s else validation_effect (s\<lparr>hist := v\<rparr>))"

definition setCandidate :: "bool \<Rightarrow> JsonField list \<Rightarrow> session \<Rightarrow> session" where
  "setCandidate same v s =
     (if same then s\<lparr>candidate := v\<rparr> else validation_effect (s\<lparr>candidate := v\<rparr>))"

definition setter :: "buffer \<Rightarrow> string \<Rightarrow> session \<Rightarrow> session" where
  "setter b = (case b of Response \<Rightarrow> setResponse | History \<Rightarrow> setHistory)"

text \<open>
  The effect on \<^verbatim>\<open>props.inherit\<close>. Its writes happen inside an effect, so the validation
  runs once after it, when a template has changed.
\<close>

definition inherit_effect :: "ResponseSchema option \<Rightarrow> session \<Rightarrow> session" where
  "inherit_effect nxt s =
     (case nxt of
        None \<Rightarrow> s
      | Some n \<Rightarrow>
          (let s1 = s\<lparr>schema := rs_schema n, hist := rs_history n, response := rs_response n\<rparr>
           in if rs_history n = hist s \<and> rs_response n = response s then s1
              else validation_effect s1))"

subsection \<open>Rename propagation\<close>

text \<open>
  \<^verbatim>\<open>response().split(`{{${from}}}`).join(`{{${to}}}`)\<close>, and the same for the history
  template. The handler writes the two textareas, then the two signals.
\<close>

definition rename_text :: "string \<Rightarrow> string \<Rightarrow> string \<Rightarrow> string" where
  "rename_text from to text =
     js_join (js_split text (''{{'' @ from @ ''}}'')) (''{{'' @ to @ ''}}'')"

definition onFieldNameChange :: "string \<Rightarrow> string \<Rightarrow> session \<Rightarrow> session" where
  "onFieldNameChange from to s =
     (let res = rename_text from to (response s);
          his = rename_text from to (hist s);
          s1 = s\<lparr>histRef := set_value his (histRef s)\<rparr>;
          s2 = s1\<lparr>respRef := set_value res (respRef s1)\<rparr>
      in setHistory his (setResponse res s2))"

subsection \<open>Insertion at the caret\<close>

text \<open>
  \<^verbatim>\<open>prev.slice(0, ref.selectionStart - (hotkey() ? 0 : 1))\<close> and
  \<^verbatim>\<open>prev.slice(ref.selectionStart)\<close>.
\<close>

definition split_before :: "bool \<Rightarrow> string \<Rightarrow> nat \<Rightarrow> string" where
  "split_before hk prev sel = js_slice prev 0 (int sel - (if hk then 0 else 1))"

definition split_after :: "string \<Rightarrow> nat \<Rightarrow> string" where
  "split_after prev sel = js_slice_from prev (int sel)"

text \<open>
  The two normalisations of the boundaries, with the branches of the source; \<open>bef\<close> and
  \<open>aft\<close> are its variables \<^verbatim>\<open>before\<close> and \<^verbatim>\<open>after\<close>.
\<close>

definition normalize_before :: "string \<Rightarrow> string" where
  "normalize_before bef =
     (if js_endsWith bef ''{{'' then bef
      else if js_endsWith bef ''{'' then bef @ ''{''
      else if \<not> js_endsWith bef ''{'' then bef @ ''{{''
      else bef)"

definition normalize_after :: "string \<Rightarrow> string" where
  "normalize_after aft = (if \<not> js_startsWith aft ''}'' then ''}}'' @ aft else aft)"

text \<open>The new text of the buffer and the offset given to \<^verbatim>\<open>setSelectionRange\<close>.\<close>

definition insert_placeholder :: "bool \<Rightarrow> string \<Rightarrow> nat \<Rightarrow> string \<Rightarrow> string \<times> nat" where
  "insert_placeholder hk prev sel lbl =
     (let bef = normalize_before (split_before hk prev sel);
          aft = normalize_after (split_after prev sel)
      in (bef @ lbl @ aft, length bef + length lbl))"

definition get_ref :: "buffer \<Rightarrow> session \<Rightarrow> textarea" where
  "get_ref b s = (case b of Response \<Rightarrow> respRef s | History \<Rightarrow> histRef s)"

definition put_ref :: "buffer \<Rightarrow> textarea \<Rightarrow> session \<Rightarrow> session" where
  "put_ref b r s = (case b of Response \<Rightarrow> s\<lparr>respRef := r\<rparr> | History \<Rightarrow> s\<lparr>histRef := r\<rparr>)"

text \<open>The signal that holds the text of a buffer.\<close>

definition get_signal :: "buffer \<Rightarrow> session \<Rightarrow> string" where
  "get_signal b s = (case b of Response \<Rightarrow> response s | History \<Rightarrow> hist s)"

text \<open>
  \<^verbatim>\<open>onAutoComplete(setter)(opt)\<close>: the textarea is chosen by the signal \<^verbatim>\<open>auto\<close>, the
  signal that is written by the buffer \<open>b\<close> whose list of suggestions was used. With a
  textarea, the handler assigns its value, writes the signal, and sets the selection
  (the focus it also takes is not part of the state); with or without one, it clears
  \<^verbatim>\<open>hotkey\<close> and \<^verbatim>\<open>auto\<close>.
\<close>

definition onAutoComplete :: "buffer \<Rightarrow> string \<Rightarrow> session \<Rightarrow> session" where
  "onAutoComplete b lbl s =
     (let target = (if auto s = ''history'' then Some History
                    else if auto s = ''response'' then Some Response else None);
          s1 = (case target of
                  None \<Rightarrow> s
                | Some t \<Rightarrow>
                    (let r = get_ref t s;
                         (nxt, caret) = insert_placeholder (hotkey s) (ta_value r) (selectionStart r) lbl;
                         s2 = setter b nxt (put_ref t (set_value nxt r) s)
                     in put_ref t (setSelectionRange caret caret (get_ref t s2)) s2))
      in s1\<lparr>hotkey := False, auto := []\<rparr>)"

subsection \<open>The autocomplete trigger\<close>

record key_event =
  key :: string
  ctrlKey :: bool
  code :: string

text \<open>The \<^verbatim>\<open>onKeyDown\<close> handler of the textarea of buffer \<open>b\<close>.\<close>

definition onKeyDown :: "buffer \<Rightarrow> key_event \<Rightarrow> session \<Rightarrow> session" where
  "onKeyDown b ev s =
     (let s1 = (if key ev = ''{'' then s\<lparr>auto := buffer_id b\<rparr> else s)
      in if ctrlKey ev \<and> code ev = ''Space''
         then s1\<lparr>hotkey := True, auto := buffer_id b\<rparr> else s1)"

definition suggesting :: "buffer \<Rightarrow> session \<Rightarrow> bool" where
  "suggesting b s \<longleftrightarrow> auto s = buffer_id b"

fun other :: "buffer \<Rightarrow> buffer" where
  "other Response = History"
| "other History = Response"

subsection \<open>Commit and import\<close>

text \<open>
  \<^verbatim>\<open>close(save)\<close>: when \<open>save\<close> holds, the candidate schema and the two templates go to
  \<^verbatim>\<open>props.update\<close>, the candidate schema becomes the schema, and the same triple goes to
  the store of the character and to the store of the preset when the component has
  their identifier; a property that is \<^verbatim>\<open>undefined\<close> or the empty string is falsy. In
  both cases the two diagnostics are cleared and the editor is hidden.
  \<^verbatim>\<open>importSchema(schema)\<close> hides the import dialog and, given a schema, writes the three
  signals and calls \<^verbatim>\<open>close(true)\<close>; the array of an imported schema is a new one.
\<close>

definition truthy_id :: "string option \<Rightarrow> string list" where
  "truthy_id x = (case x of None \<Rightarrow> [] | Some i \<Rightarrow> (if i = [] then [] else [i]))"

definition close :: "bool \<Rightarrow> session \<Rightarrow> session" where
  "close save s =
     (let s1 =
        (if save then
           (let update = \<lparr>rs_schema = candidate s, rs_response = response s, rs_history = hist s\<rparr>
            in s\<lparr>updates := updates s @ [update],
                 schema := candidate s,
                 character_edits :=
                   character_edits s @ map (\<lambda>i. (i, update)) (truthy_id (characterId (props s))),
                 preset_updates :=
                   preset_updates s @ map (\<lambda>i. (i, update)) (truthy_id (presetId (props s)))\<rparr>)
         else s)
      in s1\<lparr>histErr := [], resErr := [], show_modal := False\<rparr>)"

definition importSchema :: "ResponseSchema option \<Rightarrow> session \<Rightarrow> session" where
  "importSchema sch s =
     (let s0 = s\<lparr>showImport := False\<rparr>
      in case sch of
           None \<Rightarrow> s0
         | Some r \<Rightarrow>
             close True
               (setResponse (rs_response r)
                 (setHistory (rs_history r) (setCandidate False (rs_schema r) s0))))"

subsection \<open>The import dialog\<close>

text \<open>
  A value that \<^verbatim>\<open>JSON.parse\<close> returns. Of a number only the kind matters here. An
  object is the list of its keys with their values, each key once.
\<close>

datatype json =
    JNull
  | JBool bool
  | JNum int
  | JStr string
  | JArr "json list"
  | JObj "(string \<times> json) list"

text \<open>\<^verbatim>\<open>j.key\<close> for a key of an object.\<close>

definition get_prop :: "json \<Rightarrow> string \<Rightarrow> json option" where
  "get_prop j k = (case j of JObj kv \<Rightarrow> map_of kv k | _ \<Rightarrow> None)"

text \<open>
  The descriptions of a shape that \<^verbatim>\<open>ImportModal.onUpdate\<close> gives to \<^verbatim>\<open>assertValid\<close>:
  \<^verbatim>\<open>{ response: 'string', history: 'string', schema: ['any'] }\<close> for the document and
  \<^verbatim>\<open>{ type: { type: 'string' }, name: 'string' }\<close> for each field.
\<close>

datatype shape = SString | SAny | SArray shape | SObject "(string \<times> shape) list"

definition document_shape :: shape where
  "document_shape =
     SObject [(''response'', SString), (''history'', SString), (''schema'', SArray SAny)]"

definition field_shape :: shape where
  "field_shape = SObject [(''type'', SObject [(''type'', SString)]), (''name'', SString)]"

text \<open>
  Modelled from the spec: \<^verbatim>\<open>assertValid\<close> is imported from \<^verbatim>\<open>/common/valid\<close>, which is not
  among the sources. The spec has the import validate the shape of the parsed value
  against a description of keys and kinds, with more keys allowed. So a value conforms
  to \<^verbatim>\<open>'string'\<close> when it is a string, to \<^verbatim>\<open>'any'\<close> always, to \<^verbatim>\<open>[d]\<close> when it is an array
  whose elements conform to \<^verbatim>\<open>d\<close>, and to the description of an object when it is an
  object that has every key described, with a value that conforms.
\<close>

fun conforms :: "shape \<Rightarrow> json \<Rightarrow> bool" where
  "conforms SString j = (case j of JStr _ \<Rightarrow> True | _ \<Rightarrow> False)"
| "conforms SAny j = True"
| "conforms (SArray d) j = (case j of JArr xs \<Rightarrow> list_all (conforms d) xs | _ \<Rightarrow> False)"
| "conforms (SObject ds) j =
     (case j of
        JObj kv \<Rightarrow>
          list_all (\<lambda>(k, d). case map_of kv k of None \<Rightarrow> False | Some v \<Rightarrow> conforms d v) ds
      | _ \<Rightarrow> False)"

text \<open>
  \<^verbatim>\<open>JSON.parse\<close> is the engine's, and the text of the error that \<^verbatim>\<open>assertValid\<close> throws
  is the helper's: both are parameters. \<open>JSON_parse\<close> gives the parsed value or, on the
  left, the message of the error it throws; \<open>error_message\<close> gives the message for a
  description and a value that does not conform to it.
\<close>

record import_env =
  JSON_parse :: "string \<Rightarrow> string + json"
  error_message :: "shape \<Rightarrow> json \<Rightarrow> string"

text \<open>\<^verbatim>\<open>assertValid(d, j)\<close>: the message of the error it throws, if it throws.\<close>

definition assertValid :: "import_env \<Rightarrow> shape \<Rightarrow> json \<Rightarrow> string option" where
  "assertValid env d j = (if conforms d j then None else Some (error_message env d j))"

text \<open>
  What \<^verbatim>\<open>for (const field of json.schema)\<close> iterates over. The loop is reached after
  the document has been accepted, when \<^verbatim>\<open>json.schema\<close> is an array.
\<close>

definition schema_items :: "json \<Rightarrow> json list" where
  "schema_items j = (case get_prop j ''schema'' of Some (JArr xs) \<Rightarrow> xs | _ \<Rightarrow> [])"

text \<open>The loop over the fields stops at the first field that is rejected.\<close>

fun assert_fields :: "import_env \<Rightarrow> json list \<Rightarrow> string option" where
  "assert_fields env [] = None"
| "assert_fields env (field # rest) =
     (case assertValid env field_shape field of
        Some msg \<Rightarrow> Some msg
      | None \<Rightarrow> assert_fields env rest)"

text \<open>
  The parsed value as the argument \<^verbatim>\<open>schema?: ResponseSchema\<close> of \<^verbatim>\<open>props.close\<close>, which
  \<^verbatim>\<open>importSchema\<close> tests with \<^verbatim>\<open>!schema\<close>: \<^verbatim>\<open>null\<close>, \<^verbatim>\<open>false\<close>, zero and the empty string
  are falsy. Of a field the record keeps the name and the name of the type.
\<close>

definition falsy :: "json \<Rightarrow> bool" where
  "falsy j =
     (case j of JNull \<Rightarrow> True | JBool b \<Rightarrow> \<not> b | JNum n \<Rightarrow> n = 0 | JStr t \<Rightarrow> t = [] | _ \<Rightarrow> False)"

definition string_prop :: "json \<Rightarrow> string \<Rightarrow> string" where
  "string_prop j k = (case get_prop j k of Some (JStr t) \<Rightarrow> t | _ \<Rightarrow> [])"

definition as_JsonField :: "json \<Rightarrow> JsonField" where
  "as_JsonField f =
     \<lparr>name = string_prop f ''name'',
      ftype = (case get_prop f ''type'' of Some t \<Rightarrow> string_prop t ''type'' | None \<Rightarrow> [])\<rparr>"

definition as_ResponseSchema :: "json \<Rightarrow> ResponseSchema option" where
  "as_ResponseSchema j =
     (if falsy j then None
      else Some \<lparr>rs_schema = map as_JsonField (schema_items j),
                 rs_response = string_prop j ''response'',
                 rs_history = string_prop j ''history''\<rparr>)"

text \<open>
  How \<^verbatim>\<open>onUpdate\<close> ends: without a file it returns at once; an error thrown inside
  \<^verbatim>\<open>try\<close> is caught and reported; otherwise \<^verbatim>\<open>props.close(json)\<close> is called.
\<close>

datatype import_outcome = NoFile | Rejected string | Closed "ResponseSchema option"

text \<open>
  A file is its content, or on the left the message with which reading it fails.
\<close>

definition onUpdate :: "import_env \<Rightarrow> (string + string) list \<Rightarrow> import_outcome" where
  "onUpdate env files =
     (case files of
        [] \<Rightarrow> NoFile
      | file # _ \<Rightarrow>
          (case file of
             Inl msg \<Rightarrow> Rejected msg
           | Inr content \<Rightarrow>
               (case JSON_parse env content of
                  Inl msg \<Rightarrow> Rejected msg
                | Inr json \<Rightarrow>
                    (case assertValid env document_shape json of
                       Some msg \<Rightarrow> Rejected msg
                     | None \<Rightarrow>
                         (case assert_fields env (schema_items json) of
                            Some msg \<Rightarrow> Rejected msg
                          | None \<Rightarrow> Closed (as_ResponseSchema json))))))"

text \<open>
  The outcome in the session: \<^verbatim>\<open>toastStore.error(`Invalid JSON Schema: ${ex.message}`)\<close>
  or \<^verbatim>\<open>importSchema\<close>, which is the \<^verbatim>\<open>close\<close> of the dialog.
\<close>

definition import_outcome_step :: "import_outcome \<Rightarrow> session \<Rightarrow> session" where
  "import_outcome_step out s =
     (case out of
        NoFile \<Rightarrow> s
      | Rejected msg \<Rightarrow> s\<lparr>toasts := toasts s @ [''Invalid JSON Schema: '' @ msg]\<rparr>
      | Closed sch \<Rightarrow> importSchema sch s)"

definition import_files :: "import_env \<Rightarrow> (string + string) list \<Rightarrow> session \<Rightarrow> session" where
  "import_files env files s = import_outcome_step (onUpdate env files) s"

subsection \<open>The shapes of an import, for the specification and for the component\<close>

text \<open>
  The shape that the specification gives for an import: the two templates are
  strings, and the schema is an array of fields whose name and type are strings.
\<close>

definition spec_shape :: shape where
  "spec_shape =
     SObject [(''response'', SString), (''history'', SString),
              (''schema'', SArray (SObject [(''name'', SString), (''type'', SString)]))]"

text \<open>
  The shape that the two checks of the component ask for together: the type of a
  field is an object whose own type is a string.
\<close>

definition checked_shape :: shape where
  "checked_shape =
     SObject [(''response'', SString), (''history'', SString), (''schema'', SArray field_shape)]"

text \<open>
  The check that rejects a value, with the value it is applied to: the check of the
  document, or the check of the first field that does not conform.
\<close>

definition first_failure :: "json \<Rightarrow> (shape \<times> json) option" where
  "first_failure j =
     (if \<not> conforms document_shape j then Some (document_shape, j)
      else map_option (Pair field_shape)
             (find (\<lambda>f. \<not> conforms field_shape f) (schema_items j)))"

subsection \<open>Events\<close>

text \<open>
  The handlers of the component, one event each: the two buttons that open the
  dialogs, the end of an import, the three ways to leave the editor, a key pressed
  and a text typed in a textarea (with the caret after it), a suggestion chosen or
  the list dismissed, the two callbacks of the field editor (the update of the
  fields says whether it passes the array that the signal already holds), and a new inherited
  value. The export button downloads the inherited value and changes nothing. The
  textareas are drawn by \<^verbatim>\<open>TextInput\<close>, which is not among the sources: a new inherited
  value is modelled to leave their text alone.
\<close>

datatype event =
    ClickImport
  | ClickUpdateSchema
  | Import import_outcome
  | ModalClose
  | Cancel
  | Accept
  | KeyDown buffer key_event
  | InputText buffer string nat
  | Select string
  | AutoCompleteClose
  | CandidateUpdate bool "JsonField list"
  | NameChange string string
  | InheritChange "ResponseSchema option"

text \<open>
  A text typed by the user is in the textarea before \<^verbatim>\<open>onInputText\<close> writes the signal.
\<close>

definition user_input :: "string \<Rightarrow> nat \<Rightarrow> textarea \<Rightarrow> textarea" where
  "user_input v caret r =
     r\<lparr>ta_value := v, selectionStart := min caret (length v), selectionEnd := min caret (length v)\<rparr>"

text \<open>
  The list of suggestions of a buffer is shown only while \<^verbatim>\<open>auto\<close> names the buffer, so a
  suggestion is chosen from the list of that buffer.
\<close>

fun step :: "event \<Rightarrow> session \<Rightarrow> session" where
  "step ClickImport s = s\<lparr>showImport := True\<rparr>"
| "step ClickUpdateSchema s = s\<lparr>show_modal := True\<rparr>"
| "step (Import out) s = import_outcome_step out s"
| "step ModalClose s = s\<lparr>show_modal := False\<rparr>"
| "step Cancel s = close False s"
| "step Accept s = close True s"
| "step (KeyDown b ev) s = onKeyDown b ev s"
| "step (InputText b v caret) s = setter b v (put_ref b (user_input v caret (get_ref b s)) s)"
| "step (Select lbl) s =
     (if auto s = ''response'' then onAutoComplete Response lbl s
      else if auto s = ''history'' then onAutoComplete History lbl s
      else s)"
| "step AutoCompleteClose s = s\<lparr>auto := []\<rparr>"
| "step (CandidateUpdate same sch) s = setCandidate same sch s"
| "step (NameChange from to) s = onFieldNameChange from to s"
| "step (InheritChange nxt) s = inherit_effect nxt (s\<lparr>props := (props s)\<lparr>inherit := nxt\<rparr>\<rparr>)"

text \<open>
  The component when it is created: the signals take the inherited value, and both
  effects run once.
\<close>

definition empty_textarea :: "string \<Rightarrow> textarea" where
  "empty_textarea v = \<lparr>ta_value = v, selectionStart = length v, selectionEnd = length v\<rparr>"

definition init :: "props \<Rightarrow> session" where
  "init p =
     (let sch = (case inherit p of None \<Rightarrow> [] | Some n \<Rightarrow> rs_schema n);
          res = (case inherit p of None \<Rightarrow> [] | Some n \<Rightarrow> rs_response n);
          his = (case inherit p of None \<Rightarrow> [] | Some n \<Rightarrow> rs_history n)
      in validation_effect
           \<lparr>props = p, show_modal = False, schema = sch, showImport = False,
            response = res, hist = his, candidate = [], auto = [], hotkey = False,
            resErr = [], histErr = [],
            respRef = empty_textarea res, histRef = empty_textarea his,
            updates = [], character_edits = [], preset_updates = [], toasts = []\<rparr>)"

fun run :: "event list \<Rightarrow> session \<Rightarrow> session" where
  "run [] s = s"
| "run (e # es) s = run es (step e s)"

subsection \<open>A component to run\<close>

text \<open>
  The properties of a component that belongs to no character and to no preset, and
  inherits the two templates given and a schema without fields.
\<close>

definition example_props :: "string \<Rightarrow> string \<Rightarrow> props" where
  "example_props res his =
     \<lparr>characterId = None, presetId = None,
      inherit = Some \<lparr>rs_schema = [], rs_response = res, rs_history = his\<rparr>\<rparr>"

text \<open>A schema to import, and the two keys that open the suggestions.\<close>

definition example_schema :: ResponseSchema where
  "example_schema =
     \<lparr>rs_schema = [\<lparr>name = ''hp'', ftype = ''number''\<rparr>],
      rs_response = ''HP: {{hp}}'', rs_history = ''{{hp}}''\<rparr>"

text \<open>
  Two documents to import, each with the text of its file: in the first the type of
  the field is an object with a type of its own, in the second it is a string. An
  environment whose parser knows these two texts, and whose validator has one
  message.
\<close>

definition object_type_text :: string where
  "object_type_text =
     ''{\"response\":\"HP: {{hp}}\",\"history\":\"{{hp}}\",\"schema\":[{\"name\":\"hp\",\"type\":{\"type\":\"number\"}}]}''"

definition object_type_doc :: json where
  "object_type_doc =
     JObj [(''response'', JStr ''HP: {{hp}}''), (''history'', JStr ''{{hp}}''),
           (''schema'', JArr [JObj [(''name'', JStr ''hp''),
                                    (''type'', JObj [(''type'', JStr ''number'')])]])]"

definition string_type_text :: string where
  "string_type_text =
     ''{\"response\":\"HP: {{hp}}\",\"history\":\"{{hp}}\",\"schema\":[{\"name\":\"hp\",\"type\":\"number\"}]}''"

definition string_type_doc :: json where
  "string_type_doc =
     JObj [(''response'', JStr ''HP: {{hp}}''), (''history'', JStr ''{{hp}}''),
           (''schema'', JArr [JObj [(''name'', JStr ''hp''), (''type'', JStr ''number'')]])]"

definition example_env :: import_env where
  "example_env =
     \<lparr>JSON_parse =
        (\<lambda>content. if content = object_type_text then Inr object_type_doc
                   else if content = string_type_text then Inr string_type_doc
                   else Inl ''Unexpected token''),
      error_message = (\<lambda>d j. ''does not match the expected shape'')\<rparr>"

definition ctrl_space :: key_event where
  "ctrl_space = \<lparr>key = '' '', ctrlKey = True, code = ''Space''\<rparr>"

definition open_brace :: key_event where
  "open_brace = \<lparr>key = ''{'', ctrlKey = False, code = ''BracketLeft''\<rparr>"

section \<open>Rename propagation as the specification words it\<close>

text \<open>
  A name that can stand in a placeholder: not empty, and without a brace.
\<close>

definition valid_name :: "string \<Rightarrow> bool" where
  "valid_name n \<longleftrightarrow> n \<noteq> [] \<and> list_all name_char n"

text \<open>
  Relabelling: the text is read from the left; a placeholder whose name is \<open>A\<close> is
  written with the name \<open>B\<close>, every other placeholder and every other code unit is
  copied.
\<close>

function relabel :: "string \<Rightarrow> string \<Rightarrow> string \<Rightarrow> string" where
  "relabel A B [] = []"
| "relabel A B (c # cs) =
     (case JSON_NAME_RE_at (c # cs) of
        Some m \<Rightarrow>
          (if placeholder_name m = A then ''{{'' @ B @ ''}}'' else m)
            @ relabel A B (drop (length m) (c # cs))
      | None \<Rightarrow> c # relabel A B cs)"
  by pat_completeness auto
termination
proof (relation "measure (\<lambda>(A, B, s). length s)")
  show "wf (measure (\<lambda>(A, B, s). length s))" by simp
next
  fix A B :: string and c cs m
  assume "JSON_NAME_RE_at (c # cs) = Some m"
  then have "5 \<le> length m" by (simp add: JSON_NAME_RE_at_length)
  then show "((A, B, drop (length m) (c # cs)), A, B, c # cs) \<in> measure (\<lambda>(A, B, s). length s)"
    by simp
next
  fix A B :: string and c :: char and cs :: string
  show "((A, B, cs), A, B, c # cs) \<in> measure (\<lambda>(A, B, s). length s)" by simp
qed

text \<open>The names of the placeholders of a text, in order.\<close>

definition placeholder_names :: "string \<Rightarrow> string list" where
  "placeholder_names t = map placeholder_name (spec_placeholders t)"

section \<open>Auxiliary notions for the proofs\<close>

text \<open>The match at the start of a string, as a list of at most one element.\<close>

definition here :: "string \<Rightarrow> string list" where
  "here s = (case JSON_NAME_RE_at s of None \<Rightarrow> [] | Some m \<Rightarrow> [m])"

text \<open>The matches at the start of every suffix of a string, from left to right.\<close>

definition all_here :: "string \<Rightarrow> string list" where
  "all_here s = concat (map (\<lambda>i. here (drop i s)) [0..<length s])"

text \<open>
  Splitting at a separator and joining with a new one, as one pass over the text.
\<close>

function replace_all :: "string \<Rightarrow> string \<Rightarrow> string \<Rightarrow> string" where
  "replace_all sep new [] = []"
| "replace_all sep new (c # cs) =
     (if sep \<noteq> [] \<and> js_startsWith (c # cs) sep
      then new @ replace_all sep new (drop (length sep) (c # cs))
      else c # replace_all sep new cs)"
  by pat_completeness auto
termination
  by (relation "measure (\<lambda>(sep, new, s). length s)") auto

section \<open>The validator finds every placeholder\<close>

lemma js_startsWith_iff: "js_startsWith s p \<longleftrightarrow> (\<exists>r. s = p @ r)"
  unfolding js_startsWith_def by (metis append_eq_conv_conj append_take_drop_id)

lemma is_placeholder_iff:
  "is_placeholder w \<longleftrightarrow> (\<exists>n. w = ''{{'' @ n @ ''}}'' \<and> n \<noteq> [] \<and> list_all name_char n)"
proof
  assume p: "is_placeholder w"
  let ?n = "placeholder_name w"
  from p have len: "5 \<le> length w" and a: "take 2 w = ''{{''"
    and b: "drop (length w - 2) w = ''}}''" and c: "list_all name_char ?n"
    by (auto simp: is_placeholder_def)
  have "w = take 2 w @ drop 2 w" by simp
  also have "drop 2 w = take (length w - 4) (drop 2 w) @ drop (length w - 4) (drop 2 w)"
    by (rule append_take_drop_id[symmetric])
  also have "drop (length w - 4) (drop 2 w) = drop (length w - 2) w"
  proof -
    have "length w - 4 + 2 = length w - 2" using len by arith
    then show ?thesis by (simp only: drop_drop)
  qed
  finally have "w = ''{{'' @ ?n @ ''}}''"
    using a b by (simp add: placeholder_name_def)
  moreover have "?n \<noteq> []" using len by (auto simp: placeholder_name_def)
  ultimately show "\<exists>n. w = ''{{'' @ n @ ''}}'' \<and> n \<noteq> [] \<and> list_all name_char n"
    using c by blast
next
  assume "\<exists>n. w = ''{{'' @ n @ ''}}'' \<and> n \<noteq> [] \<and> list_all name_char n"
  then obtain n where w: "w = ''{{'' @ n @ ''}}''" and ne: "n \<noteq> []" and c: "list_all name_char n"
    by blast
  from ne have "1 \<le> length n" by (cases n) auto
  then show "is_placeholder w"
    using c by (simp add: is_placeholder_def placeholder_name_def w)
qed

lemma placeholder_name_braces [simp]: "placeholder_name (''{{'' @ n @ ''}}'') = n"
  by (simp add: placeholder_name_def)

lemma RE_at_Some_iff:
  "JSON_NAME_RE_at s = Some m \<longleftrightarrow> is_placeholder m \<and> (\<exists>r. s = m @ r)"
proof
  assume a: "JSON_NAME_RE_at s = Some m"
  let ?b = "drop 2 s"
  let ?nm = "takeWhile name_char ?b"
  let ?rest = "dropWhile name_char ?b"
  from a have st: "js_startsWith s ''{{''" and ne: "?nm \<noteq> []"
    and cl: "js_startsWith ?rest ''}}''" and m: "m = ''{{'' @ ?nm @ ''}}''"
    by (auto simp: JSON_NAME_RE_at_def Let_def split: if_splits)
  have "list_all name_char ?nm"
    by (simp add: list_all_iff) (metis set_takeWhileD)
  with ne m have "is_placeholder m" unfolding is_placeholder_iff by blast
  moreover from st obtain b where sb: "s = ''{{'' @ b" unfolding js_startsWith_iff by blast
  then have "?b = b" by simp
  then have "s = ''{{'' @ ?nm @ ?rest" using sb by simp
  moreover from cl obtain r where "?rest = ''}}'' @ r" unfolding js_startsWith_iff by blast
  ultimately show "is_placeholder m \<and> (\<exists>r. s = m @ r)"
    using m by (metis append.assoc)
next
  assume "is_placeholder m \<and> (\<exists>r. s = m @ r)"
  then obtain n r where m: "m = ''{{'' @ n @ ''}}''" and ne: "n \<noteq> []"
    and c: "list_all name_char n" and s: "s = m @ r"
    unfolding is_placeholder_iff by blast
  have d: "drop 2 s = n @ CHR ''}'' # CHR ''}'' # r" by (simp add: s m)
  have nc: "\<not> name_char CHR ''}''" by (simp add: name_char_def)
  have t: "takeWhile name_char (drop 2 s) = n"
    unfolding d using c nc by (simp add: takeWhile_append2 list_all_iff)
  have dw: "dropWhile name_char (drop 2 s) = CHR ''}'' # CHR ''}'' # r"
    unfolding d using c nc by (simp add: dropWhile_append2 list_all_iff)
  show "JSON_NAME_RE_at s = Some m"
    using ne by (simp add: JSON_NAME_RE_at_def t dw Let_def) (simp add: js_startsWith_def s m)
qed


lemma filter_unique_index:
  assumes "k0 < n" and "P (f k0)" and "\<And>k. k < n \<Longrightarrow> P (f k) \<Longrightarrow> k = k0"
  shows "filter P (map f [0..<n]) = [f k0]"
proof -
  have "[0..<n] = [0..<k0] @ [k0..<n]"
    using assms(1) upt_add_eq_append[of 0 k0 "n - k0"] by simp
  moreover have "[k0..<n] = k0 # [Suc k0..<n]"
    using assms(1) by (rule upt_conv_Cons)
  ultimately have split: "[0..<n] = [0..<k0] @ k0 # [Suc k0..<n]" by simp
  have "\<not> P (f k)" if "k < k0" for k
    using assms(3)[of k] that assms(1) by auto
  then have a: "filter P (map f [0..<k0]) = []"
    by (auto simp: filter_empty_conv)
  have b: "filter P (map f [Suc k0..<n]) = []"
    using assms(3) by (auto simp: filter_empty_conv)
  show ?thesis
    unfolding split using a b assms(2) by simp
qed

lemma substrings_at_here:
  "filter is_placeholder (substrings_at t i) = here (drop i t)"
proof -
  let ?s = "drop i t"
  have sub: "substrings_at t i = map (\<lambda>k. take k ?s) [0..<Suc (length ?s)]"
    by (simp add: substrings_at_def)
  show ?thesis
  proof (cases "JSON_NAME_RE_at ?s")
    case None
    have "\<not> is_placeholder (take k ?s)" for k
    proof
      assume "is_placeholder (take k ?s)"
      moreover have "?s = take k ?s @ drop k ?s" by (rule append_take_drop_id[symmetric])
      ultimately have "JSON_NAME_RE_at ?s = Some (take k ?s)"
        unfolding RE_at_Some_iff by blast
      with None show False by simp
    qed
    then have "filter is_placeholder (substrings_at t i) = []"
      by (simp only: sub filter_empty_conv set_map) blast
    with None show ?thesis by (simp add: here_def)
  next
    case (Some m)
    then have pm: "is_placeholder m" and "\<exists>r. ?s = m @ r"
      unfolding RE_at_Some_iff by blast+
    then obtain r where r: "?s = m @ r" by blast
    then have tk: "take (length m) ?s = m" by simp
    have lt: "length m < Suc (length ?s)" using r by simp
    have uniq: "k = length m" if "k < Suc (length ?s)" and "is_placeholder (take k ?s)" for k
    proof -
      have "?s = take k ?s @ drop k ?s" by (rule append_take_drop_id[symmetric])
      with that(2) have "JSON_NAME_RE_at ?s = Some (take k ?s)"
        unfolding RE_at_Some_iff by blast
      with Some have "take k ?s = m" by simp
      then have "length (take k ?s) = length m" by simp
      with that(1) show ?thesis by simp
    qed
    have "filter is_placeholder (map (\<lambda>k. take k ?s) [0..<Suc (length ?s)]) = [take (length m) ?s]"
      by (rule filter_unique_index[OF lt]) (use pm tk uniq in auto)
    with Some tk show ?thesis unfolding sub by (simp add: here_def)
  qed
qed

lemma placeholder_inner_no_open:
  assumes "is_placeholder m" and "2 \<le> k" and "k < length m"
  shows "m ! k \<noteq> CHR ''{''"
proof -
  from assms(1) obtain n where m: "m = ''{{'' @ n @ ''}}''" and c: "list_all name_char n"
    unfolding is_placeholder_iff by blast
  from assms(2) obtain j where k: "k = j + 2" by (metis add.commute le_Suc_ex)
  have "m ! k = (n @ ''}}'') ! j" by (simp add: m k)
  moreover have "\<forall>x \<in> set (n @ ''}}''). x \<noteq> CHR ''{''"
    using c by (auto simp: list_all_iff name_char_def)
  moreover have "j < length (n @ ''}}'')" using assms(3) by (simp add: m k)
  ultimately show ?thesis by (metis nth_mem)
qed

lemma no_match_inside:
  assumes "JSON_NAME_RE_at s = Some m" and "0 < j" and "j < length m"
  shows "JSON_NAME_RE_at (drop j s) = None"
proof (rule ccontr)
  assume "JSON_NAME_RE_at (drop j s) \<noteq> None"
  then have st: "js_startsWith (drop j s) ''{{''"
    by (auto simp: JSON_NAME_RE_at_def split: if_splits)
  then obtain r where d: "drop j s = ''{{'' @ r" unfolding js_startsWith_iff by blast
  from assms(1) have pm: "is_placeholder m" and "\<exists>r. s = m @ r"
    unfolding RE_at_Some_iff by blast+
  then obtain r' where s: "s = m @ r'" by blast
  have len: "5 \<le> length m" using assms(1) by (simp add: JSON_NAME_RE_at_length)
  have n0: "(drop j s) ! 0 = CHR ''{''" and n1: "(drop j s) ! 1 = CHR ''{''"
    by (simp_all add: d)
  have "length (drop j s) = length (''{{'' @ r)" using d by simp
  then have "length s - j = 2 + length r" by simp
  then have lj: "j + 1 < length s" by arith
  show False
  proof (cases "j + 1 < length m")
    case True
    have "s ! (j + 1) = m ! (j + 1)" using True by (simp add: s nth_append)
    moreover have "s ! (j + 1) = CHR ''{''" using n1 lj by simp
    moreover have "m ! (j + 1) \<noteq> CHR ''{''"
      using assms(2) True by (intro placeholder_inner_no_open[OF pm]) auto
    ultimately show False by simp
  next
    case False
    with assms(3) have j: "j + 1 = length m" by simp
    have "s ! j = m ! j" using assms(3) by (simp add: s nth_append)
    moreover have "s ! j = CHR ''{''" using n0 lj by simp
    moreover have "m ! j \<noteq> CHR ''{''"
      using j len assms(3) by (intro placeholder_inner_no_open[OF pm]) auto
    ultimately show False by simp
  qed
qed

lemma all_here_Nil [simp]: "all_here [] = []"
  by (simp add: all_here_def)

lemma all_here_Cons: "all_here (c # cs) = here (c # cs) @ all_here cs"
  by (simp add: all_here_def map_upt_Suc del: upt_Suc)

lemma all_here_skip:
  "j \<le> length s \<Longrightarrow> (\<And>i. i < j \<Longrightarrow> here (drop i s) = []) \<Longrightarrow> all_here s = all_here (drop j s)"
proof (induction j arbitrary: s)
  case 0
  then show ?case by simp
next
  case (Suc j)
  then obtain c cs where s: "s = c # cs" by (cases s) auto
  have "here (drop 0 s) = []" by (rule Suc.prems(2)) simp
  then have "all_here s = all_here cs" by (simp add: s all_here_Cons)
  also have "all_here cs = all_here (drop j cs)"
  proof (rule Suc.IH)
    show "j \<le> length cs" using Suc.prems(1) by (simp add: s)
    fix i assume "i < j"
    then have "here (drop (Suc i) s) = []" by (intro Suc.prems(2)) simp
    then show "here (drop i cs) = []" by (simp add: s)
  qed
  finally show ?case by (simp add: s)
qed

lemma spec_placeholders_all_here: "spec_placeholders t = all_here t"
  by (simp add: spec_placeholders_def all_here_def substrings_at_here)

lemma match_all_all_here: "match_all s = all_here s"
proof (induction s rule: match_all.induct)
  case 1
  then show ?case by simp
next
  case (2 c cs)
  show ?case
  proof (cases "JSON_NAME_RE_at (c # cs)")
    case None
    with 2 show ?thesis by (simp add: all_here_Cons here_def)
  next
    case (Some m)
    have len: "5 \<le> length m" "length m \<le> length (c # cs)"
      using JSON_NAME_RE_at_length[OF Some] by blast+
    then obtain k where k: "length m = Suc k" by (cases "length m") auto
    have "all_here cs = all_here (drop k cs)"
    proof (rule all_here_skip)
      show "k \<le> length cs" using len k by simp
      fix i assume "i < k"
      then have "JSON_NAME_RE_at (drop (Suc i) (c # cs)) = None"
        using k by (intro no_match_inside[OF Some]) auto
      then show "here (drop i cs) = []" by (simp add: here_def)
    qed
    then have "all_here (c # cs) = m # all_here (drop (length m) (c # cs))"
      using Some by (simp add: all_here_Cons here_def k)
    with 2(2)[OF Some] Some show ?thesis by simp
  qed
qed

lemma bad_names_filter:
  "bad_names V ms = filter (\<lambda>n. n \<notin> V) (map (\<lambda>w. js_slice w 2 (- 2)) ms)"
  by (induction ms) (auto simp: Let_def)

lemma js_slice_inner: "js_slice w 2 (- 2) = placeholder_name w"
proof (cases "2 \<le> length w")
  case True
  then have "nat (int (length w) - 2 - 2) = length w - 4" by arith
  with True show ?thesis
    by (simp add: js_slice_def placeholder_name_def Let_def max_def min_def)
next
  case False
  then show ?thesis
    by (simp add: js_slice_def placeholder_name_def Let_def max_def min_def)
qed

text \<open>
  Claim C1. For every text \<open>t\<close> and every set \<open>V\<close> of valid names, the unresolved list
  that the validator builds is the list of the names of all substrings of \<open>t\<close> that
  match the placeholder grammar and whose name is not in \<open>V\<close>, in the order in which
  they occur in \<open>t\<close> and with duplicates kept. Nothing else contributes an entry: a
  sequence in single braces is no placeholder. Two matches never overlap, so the
  search from the left misses none.
\<close>

theorem validator_unresolved_exact: "unresolved t V = spec_unresolved t V"
proof -
  have "unresolved t V = bad_names V (match_all t)"
    by (cases "match_all t") (simp_all add: unresolved_def bad_list_def js_match_def)
  then show ?thesis
    by (simp add: bad_names_filter js_slice_inner spec_unresolved_def
        spec_placeholders_all_here match_all_all_here)
qed

theorem validator_unresolved_exact_witness:
  "unresolved ''HP: {{hp}}% {{mp}} {x} {{mp}}'' {''hp''} = [''mp'', ''mp''] \<and>
   spec_unresolved ''HP: {{hp}}% {{mp}} {x} {{mp}}'' {''hp''} = [''mp'', ''mp'']"
proof -
  have "unresolved ''HP: {{hp}}% {{mp}} {x} {{mp}}'' {''hp''} = [''mp'', ''mp'']"
    by code_simp
  then show ?thesis
    using validator_unresolved_exact [of "''HP: {{hp}}% {{mp}} {x} {{mp}}''" "{''hp''}"]
    by simp
qed

section \<open>Rename propagation relabels placeholders\<close>

lemma placeholder_name_braces_Cons [simp]:
  "placeholder_name (CHR ''{'' # CHR ''{'' # n @ ''}}'') = n"
  using placeholder_name_braces[of n] by simp

lemma js_split_sep_not_Nil: "js_split_sep sep s \<noteq> []"
  by (induction sep s rule: js_split_sep.induct) (auto split: list.splits)

lemma js_join_Cons_Cons: "js_join ((c # p) # ps) new = c # js_join (p # ps) new"
  by (cases ps) auto

lemma js_join_Nil_Cons: "ps \<noteq> [] \<Longrightarrow> js_join ([] # ps) new = new @ js_join ps new"
  by (cases ps) auto

lemma join_split_replace_all: "js_join (js_split_sep sep s) new = replace_all sep new s"
proof (induction sep s rule: js_split_sep.induct)
  case (1 sep)
  then show ?case by simp
next
  case (2 sep c cs)
  show ?case
  proof (cases "sep \<noteq> [] \<and> js_startsWith (c # cs) sep")
    case True
    with 2 show ?thesis
      by (simp add: js_join_Nil_Cons js_split_sep_not_Nil)
  next
    case False
    obtain p ps where sp: "js_split_sep sep cs = p # ps"
      using js_split_sep_not_Nil[of sep cs] by (cases "js_split_sep sep cs") auto
    with False 2 show ?thesis
      by (auto simp: js_join_Cons_Cons)
  qed
qed

lemma rename_text_replace_all:
  "rename_text A B t = replace_all (''{{'' @ A @ ''}}'') (''{{'' @ B @ ''}}'') t"
  by (simp add: rename_text_def js_split_def join_split_replace_all)

lemma valid_name_placeholder: "valid_name n \<Longrightarrow> is_placeholder (''{{'' @ n @ ''}}'')"
  unfolding is_placeholder_iff valid_name_def by blast

lemma starts_valid_RE_at:
  assumes "valid_name A" and "js_startsWith s (''{{'' @ A @ ''}}'')"
  shows "JSON_NAME_RE_at s = Some (''{{'' @ A @ ''}}'')"
  using assms valid_name_placeholder[of A] unfolding RE_at_Some_iff js_startsWith_iff by blast

lemma replace_all_skip:
  "(\<And>i. i < length xs \<Longrightarrow> \<not> js_startsWith (drop i (xs @ r)) sep)
   \<Longrightarrow> replace_all sep new (xs @ r) = xs @ replace_all sep new r"
proof (induction xs)
  case Nil
  then show ?case by simp
next
  case (Cons x xs)
  have "\<not> js_startsWith (drop 0 ((x # xs) @ r)) sep" by (rule Cons.prems) simp
  then have a: "\<not> js_startsWith (x # xs @ r) sep" by simp
  have "replace_all sep new (xs @ r) = xs @ replace_all sep new r"
  proof (rule Cons.IH)
    fix i assume "i < length xs"
    then have "\<not> js_startsWith (drop (Suc i) ((x # xs) @ r)) sep" by (intro Cons.prems) simp
    then show "\<not> js_startsWith (drop i (xs @ r)) sep" by simp
  qed
  with a show ?case by simp
qed

lemma replace_all_relabel:
  assumes A: "valid_name A"
  shows "replace_all (''{{'' @ A @ ''}}'') (''{{'' @ B @ ''}}'') t = relabel A B t"
  using A
proof (induction A B t rule: relabel.induct)
  case (1 A B)
  then show ?case by simp
next
  case (2 A B c cs)
  let ?s = "c # cs"
  let ?sep = "''{{'' @ A @ ''}}''"
  let ?new = "''{{'' @ B @ ''}}''"
  have A: "valid_name A" by (rule "2.prems")
  show ?case
  proof (cases "JSON_NAME_RE_at ?s")
    case None
    have "\<not> js_startsWith ?s ?sep"
      using starts_valid_RE_at[OF A, of ?s] None by auto
    with None 2(1)[OF None A] show ?thesis by simp
  next
    case (Some m)
    then have pm: "is_placeholder m" and "\<exists>r. ?s = m @ r"
      unfolding RE_at_Some_iff by blast+
    then obtain r where r: "?s = m @ r" by blast
    then have dr: "drop (length m) ?s = r" by simp
    have IH: "replace_all ?sep ?new r = relabel A B r"
      using 2(2)[OF Some A] dr by simp
    show ?thesis
    proof (cases "placeholder_name m = A")
      case True
      from pm obtain n where mn: "m = ''{{'' @ n @ ''}}''" unfolding is_placeholder_iff by blast
      have "placeholder_name m = n" unfolding mn by (rule placeholder_name_braces)
      with True mn have m: "m = ?sep" by simp
      then have st: "js_startsWith ?s ?sep" unfolding js_startsWith_iff using r by blast
      have "replace_all ?sep ?new ?s = ?new @ replace_all ?sep ?new (drop (length ?sep) ?s)"
        using st by (subst replace_all.simps) simp
      also have "drop (length ?sep) ?s = r" using dr m by simp
      finally show ?thesis using Some True IH dr by simp
    next
      case False
      have no: "\<not> js_startsWith (drop i (m @ r)) ?sep" if "i < length m" for i
      proof
        assume st: "js_startsWith (drop i (m @ r)) ?sep"
        then have re: "JSON_NAME_RE_at (drop i ?s) = Some ?sep"
          using starts_valid_RE_at[OF A] r by simp
        show False
        proof (cases i)
          case 0
          with re Some have "m = ?sep" by simp
          with False show False by simp
        next
          case (Suc j)
          then have "JSON_NAME_RE_at (drop i ?s) = None"
            using that by (intro no_match_inside[OF Some]) auto
          with re show False by simp
        qed
      qed
      have "replace_all ?sep ?new (m @ r) = m @ replace_all ?sep ?new r"
        by (rule replace_all_skip) (use no in blast)
      then have "replace_all ?sep ?new ?s = m @ relabel A B r"
        by (simp only: r IH)
      moreover have "relabel A B ?s = m @ relabel A B r"
        using Some False dr by simp
      ultimately show ?thesis by simp
    qed
  qed
qed

lemma match_all_placeholder_append:
  assumes "is_placeholder m"
  shows "match_all (m @ x) = m # match_all x"
proof -
  have re: "JSON_NAME_RE_at (m @ x) = Some m"
    using assms unfolding RE_at_Some_iff by blast
  have "5 \<le> length m" using JSON_NAME_RE_at_length[OF re] by blast
  then obtain c cs where cs: "m @ x = c # cs" by (cases "m @ x") auto
  have "match_all (c # cs) = m # match_all (drop (length m) (c # cs))"
    using re cs by simp
  then show ?thesis unfolding cs[symmetric] by simp
qed

lemma relabel_prefix_back:
  "relabel A B x = p @ r' \<Longrightarrow> CHR ''{'' \<notin> set p \<Longrightarrow> \<exists>r. x = p @ r"
proof (induction p arbitrary: x r')
  case Nil
  then show ?case by simp
next
  case (Cons a p)
  then have a: "a \<noteq> CHR ''{''" by auto
  from Cons.prems(1) obtain c cs where x: "x = c # cs" by (cases x) auto
  show ?case
  proof (cases "JSON_NAME_RE_at x")
    case (Some m)
    then have "hd (relabel A B x) = CHR ''{''"
    proof -
      from Some obtain n where "m = ''{{'' @ n @ ''}}''"
        unfolding RE_at_Some_iff is_placeholder_iff by blast
      then show ?thesis using Some x by simp
    qed
    with Cons.prems(1) a show ?thesis by simp
  next
    case None
    then have "relabel A B x = c # relabel A B cs" using x by simp
    with Cons.prems(1) have "c = a" and "relabel A B cs = p @ r'" by simp_all
    moreover from this Cons.IH[of cs r'] Cons.prems(2) obtain r where "cs = p @ r" by auto
    ultimately show ?thesis using x by simp
  qed
qed

lemma RE_at_None_relabel:
  assumes "JSON_NAME_RE_at (c # cs) = None"
  shows "JSON_NAME_RE_at (c # relabel A B cs) = None"
proof (rule ccontr)
  assume "JSON_NAME_RE_at (c # relabel A B cs) \<noteq> None"
  then obtain m where "JSON_NAME_RE_at (c # relabel A B cs) = Some m" by blast
  then obtain n r' where n: "n \<noteq> []" "list_all name_char n"
    and eq: "c # relabel A B cs = (''{{'' @ n @ ''}}'') @ r'"
    unfolding RE_at_Some_iff is_placeholder_iff by blast
  from eq have c: "c = CHR ''{''" and rl: "relabel A B cs = CHR ''{'' # n @ ''}}'' @ r'"
    by simp_all
  from n obtain n0 ns where n0: "n = n0 # ns" "n0 \<noteq> CHR ''{''"
    by (cases n) (auto simp: name_char_def)
  from rl obtain c2 cs2 where cs: "cs = c2 # cs2" by (cases cs) auto
  have none2: "JSON_NAME_RE_at cs = None"
  proof (rule ccontr)
    assume "JSON_NAME_RE_at cs \<noteq> None"
    then obtain m2 where m2: "JSON_NAME_RE_at cs = Some m2" by blast
    then obtain k where "m2 = ''{{'' @ k @ ''}}''"
      unfolding RE_at_Some_iff is_placeholder_iff by blast
    then have "\<exists>z. relabel A B cs = CHR ''{'' # CHR ''{'' # z"
      using m2 cs by simp
    with rl n0 show False by auto
  qed
  then have "relabel A B cs = c2 # relabel A B cs2" using cs by simp
  with rl have c2: "c2 = CHR ''{''" and rl2: "relabel A B cs2 = (n @ ''}}'') @ r'" by simp_all
  have "CHR ''{'' \<notin> set (n @ ''}}'')"
    using n(2) by (auto simp: list_all_iff name_char_def)
  from relabel_prefix_back[OF rl2 this] obtain r where "cs2 = (n @ ''}}'') @ r" by blast
  then have "c # cs = (''{{'' @ n @ ''}}'') @ r" using c c2 cs by simp
  then have "JSON_NAME_RE_at (c # cs) = Some (''{{'' @ n @ ''}}'')"
    using n unfolding RE_at_Some_iff is_placeholder_iff by blast
  with assms show False by simp
qed

lemma match_all_relabel:
  assumes B: "valid_name B"
  shows "match_all (relabel A B t)
       = map (\<lambda>m. if placeholder_name m = A then ''{{'' @ B @ ''}}'' else m) (match_all t)"
  using B
proof (induction A B t rule: relabel.induct)
  case (1 A B)
  then show ?case by simp
next
  case (2 A B c cs)
  have B: "valid_name B" by (rule "2.prems")
  show ?case
  proof (cases "JSON_NAME_RE_at (c # cs)")
    case None
    have "match_all (c # relabel A B cs) = match_all (relabel A B cs)"
      using RE_at_None_relabel[OF None, of A B] by simp
    with None 2(1)[OF None B] show ?thesis by simp
  next
    case (Some m)
    let ?m' = "if placeholder_name m = A then ''{{'' @ B @ ''}}'' else m"
    have "is_placeholder m" using Some unfolding RE_at_Some_iff by blast
    then have "is_placeholder ?m'" using valid_name_placeholder[OF B] by simp
    then have "match_all (?m' @ relabel A B (drop (length m) (c # cs)))
             = ?m' # match_all (relabel A B (drop (length m) (c # cs)))"
      by (rule match_all_placeholder_append)
    with Some 2(2)[OF Some B] show ?thesis by simp
  qed
qed

section \<open>What the handlers leave alone\<close>

lemma validation_effect_frame [simp]:
  "response (validation_effect s) = response s"
  "hist (validation_effect s) = hist s"
  "candidate (validation_effect s) = candidate s"
  "schema (validation_effect s) = schema s"
  "respRef (validation_effect s) = respRef s"
  "histRef (validation_effect s) = histRef s"
  "auto (validation_effect s) = auto s"
  "hotkey (validation_effect s) = hotkey s"
  "updates (validation_effect s) = updates s"
  "character_edits (validation_effect s) = character_edits s"
  "preset_updates (validation_effect s) = preset_updates s"
  "toasts (validation_effect s) = toasts s"
  "props (validation_effect s) = props s"
  by (simp_all add: validation_effect_def)

lemma setResponse_frame [simp]:
  "response (setResponse v s) = v"
  "hist (setResponse v s) = hist s"
  "candidate (setResponse v s) = candidate s"
  "respRef (setResponse v s) = respRef s"
  "histRef (setResponse v s) = histRef s"
  "auto (setResponse v s) = auto s"
  "hotkey (setResponse v s) = hotkey s"
  "updates (setResponse v s) = updates s"
  "character_edits (setResponse v s) = character_edits s"
  "preset_updates (setResponse v s) = preset_updates s"
  "toasts (setResponse v s) = toasts s"
  "props (setResponse v s) = props s"
  by (simp_all add: setResponse_def)

lemma setHistory_frame [simp]:
  "response (setHistory v s) = response s"
  "hist (setHistory v s) = v"
  "candidate (setHistory v s) = candidate s"
  "respRef (setHistory v s) = respRef s"
  "histRef (setHistory v s) = histRef s"
  "auto (setHistory v s) = auto s"
  "hotkey (setHistory v s) = hotkey s"
  "updates (setHistory v s) = updates s"
  "character_edits (setHistory v s) = character_edits s"
  "preset_updates (setHistory v s) = preset_updates s"
  "toasts (setHistory v s) = toasts s"
  "props (setHistory v s) = props s"
  by (simp_all add: setHistory_def)

lemma setCandidate_frame [simp]:
  "response (setCandidate same v s) = response s"
  "hist (setCandidate same v s) = hist s"
  "candidate (setCandidate same v s) = v"
  "respRef (setCandidate same v s) = respRef s"
  "histRef (setCandidate same v s) = histRef s"
  "auto (setCandidate same v s) = auto s"
  "hotkey (setCandidate same v s) = hotkey s"
  "updates (setCandidate same v s) = updates s"
  "character_edits (setCandidate same v s) = character_edits s"
  "preset_updates (setCandidate same v s) = preset_updates s"
  "toasts (setCandidate same v s) = toasts s"
  "props (setCandidate same v s) = props s"
  by (simp_all add: setCandidate_def)

lemma put_ref_frame [simp]:
  "response (put_ref b r s) = response s"
  "hist (put_ref b r s) = hist s"
  "candidate (put_ref b r s) = candidate s"
  "auto (put_ref b r s) = auto s"
  "hotkey (put_ref b r s) = hotkey s"
  "updates (put_ref b r s) = updates s"
  "character_edits (put_ref b r s) = character_edits s"
  "preset_updates (put_ref b r s) = preset_updates s"
  "toasts (put_ref b r s) = toasts s"
  "props (put_ref b r s) = props s"
  by (cases b; simp add: put_ref_def)+

lemma setter_frame [simp]:
  "candidate (setter b v s) = candidate s"
  "auto (setter b v s) = auto s"
  "hotkey (setter b v s) = hotkey s"
  "updates (setter b v s) = updates s"
  "character_edits (setter b v s) = character_edits s"
  "preset_updates (setter b v s) = preset_updates s"
  "toasts (setter b v s) = toasts s"
  "props (setter b v s) = props s"
  by (cases b; simp add: setter_def)+

lemma inherit_effect_commits [simp]:
  "updates (inherit_effect n s) = updates s"
  "character_edits (inherit_effect n s) = character_edits s"
  "preset_updates (inherit_effect n s) = preset_updates s"
  by (simp_all add: inherit_effect_def Let_def split: option.splits)

lemma onKeyDown_commits [simp]:
  "updates (onKeyDown b ev s) = updates s"
  "character_edits (onKeyDown b ev s) = character_edits s"
  "preset_updates (onKeyDown b ev s) = preset_updates s"
  by (simp_all add: onKeyDown_def Let_def)

lemma onFieldNameChange_commits [simp]:
  "updates (onFieldNameChange A B s) = updates s"
  "character_edits (onFieldNameChange A B s) = character_edits s"
  "preset_updates (onFieldNameChange A B s) = preset_updates s"
  by (simp_all add: onFieldNameChange_def Let_def)

lemma onAutoComplete_commits [simp]:
  "updates (onAutoComplete b lbl s) = updates s"
  "character_edits (onAutoComplete b lbl s) = character_edits s"
  "preset_updates (onAutoComplete b lbl s) = preset_updates s"
  by (simp_all add: onAutoComplete_def Let_def split: option.splits prod.splits)

lemma close_False_commits [simp]:
  "updates (close False s) = updates s"
  "character_edits (close False s) = character_edits s"
  "preset_updates (close False s) = preset_updates s"
  by (simp_all add: close_def)

lemma close_True_updates:
  "updates (close True s)
     = updates s @ [\<lparr>rs_schema = candidate s, rs_response = response s, rs_history = hist s\<rparr>]"
  by (simp add: close_def Let_def)

lemma close_signals [simp]:
  "candidate (close b s) = candidate s"
  "response (close b s) = response s"
  "hist (close b s) = hist s"
  by (simp_all add: close_def Let_def)

lemma import_outcome_step_commits:
  "(\<And>sch. out \<noteq> Closed (Some sch)) \<Longrightarrow>
     updates (import_outcome_step out s) = updates s \<and>
     character_edits (import_outcome_step out s) = character_edits s \<and>
     preset_updates (import_outcome_step out s) = preset_updates s"
proof (cases out)
  case (Closed x)
  assume "\<And>sch. out \<noteq> Closed (Some sch)"
  with Closed have "x = None" by (cases x) auto
  with Closed show ?thesis by (simp add: import_outcome_step_def importSchema_def)
qed (simp_all add: import_outcome_step_def)

lemma ta_value_set_value [simp]: "ta_value (set_value v r) = v"
  by (simp add: set_value_def)

lemma placeholder_names_match_all: "placeholder_names t = map placeholder_name (match_all t)"
  by (simp add: placeholder_names_def spec_placeholders_all_here match_all_all_here)

lemma placeholder_names_rename:
  assumes "valid_name A" and "valid_name B"
  shows "placeholder_names (rename_text A B t)
       = map (\<lambda>n. if n = A then B else n) (placeholder_names t)"
proof -
  have "rename_text A B t = relabel A B t"
    by (simp only: rename_text_replace_all replace_all_relabel[OF assms(1)])
  then show ?thesis
    by (simp add: placeholder_names_match_all match_all_relabel[OF assms(2)] o_def if_distrib
        cong: if_cong)
qed

text \<open>
  Claim C2, as amended. For every pair of buffers and every rename from \<open>A\<close> to \<open>B\<close>
  where both names are not empty and contain no brace, rename propagation relabels:
  in the response and in the history buffer independently, in the signal and in the
  textarea, every placeholder named \<open>A\<close> becomes the placeholder named \<open>B\<close> and nothing
  else changes, so a placeholder whose name only starts with \<open>A\<close> stays. No placeholder
  is created or removed: the names of the placeholders of each buffer are the old
  names with \<open>A\<close> replaced by \<open>B\<close>.
\<close>

theorem rename_relabels_placeholders:
  assumes "valid_name A" and "valid_name B"
  shows "response (onFieldNameChange A B s) = relabel A B (response s) \<and>
         hist (onFieldNameChange A B s) = relabel A B (hist s) \<and>
         ta_value (respRef (onFieldNameChange A B s)) = relabel A B (response s) \<and>
         ta_value (histRef (onFieldNameChange A B s)) = relabel A B (hist s) \<and>
         placeholder_names (response (onFieldNameChange A B s))
           = map (\<lambda>n. if n = A then B else n) (placeholder_names (response s)) \<and>
         placeholder_names (hist (onFieldNameChange A B s))
           = map (\<lambda>n. if n = A then B else n) (placeholder_names (hist s))"
proof -
  have r: "rename_text A B t = relabel A B t" for t
    by (simp only: rename_text_replace_all replace_all_relabel[OF assms(1)])
  have 1: "response (onFieldNameChange A B s) = rename_text A B (response s)"
    and 2: "hist (onFieldNameChange A B s) = rename_text A B (hist s)"
    and 3: "ta_value (respRef (onFieldNameChange A B s)) = rename_text A B (response s)"
    and 4: "ta_value (histRef (onFieldNameChange A B s)) = rename_text A B (hist s)"
    by (simp_all add: onFieldNameChange_def Let_def)
  show ?thesis
    unfolding 1 2 3 4 placeholder_names_rename[OF assms] by (simp add: r)
qed

theorem rename_relabels_placeholders_witness:
  "valid_name ''a'' \<and> valid_name ''b'' \<and>
   response (onFieldNameChange ''a'' ''b'' (init (example_props ''x{{a}}y{{ab}}{{a}}'' ''{{a}}'')))
     = ''x{{b}}y{{ab}}{{b}}'' \<and>
   hist (onFieldNameChange ''a'' ''b'' (init (example_props ''x{{a}}y{{ab}}{{a}}'' ''{{a}}'')))
     = ''{{b}}'' \<and>
   placeholder_names
     (response (onFieldNameChange ''a'' ''b'' (init (example_props ''x{{a}}y{{ab}}{{a}}'' ''{{a}}''))))
     = [''b'', ''ab'', ''b'']"
proof -
  have a: "valid_name ''a''" and b: "valid_name ''b''" by code_simp+
  have r: "relabel ''a'' ''b'' ''x{{a}}y{{ab}}{{a}}'' = ''x{{b}}y{{ab}}{{b}}''"
    and h: "relabel ''a'' ''b'' ''{{a}}'' = ''{{b}}''"
    and i: "response (init (example_props ''x{{a}}y{{ab}}{{a}}'' ''{{a}}'')) = ''x{{a}}y{{ab}}{{a}}''"
    and j: "hist (init (example_props ''x{{a}}y{{ab}}{{a}}'' ''{{a}}'')) = ''{{a}}''"
    and n: "placeholder_names ''x{{a}}y{{ab}}{{a}}'' = [''a'', ''ab'', ''a'']"
    and n': "placeholder_names ''x{{b}}y{{ab}}{{b}}'' = [''b'', ''ab'', ''b'']"
    by code_simp+
  show ?thesis
    using rename_relabels_placeholders [OF a b,
        of "init (example_props ''x{{a}}y{{ab}}{{a}}'' ''{{a}}'')"] a b
    unfolding i j r h n by (simp add: n')
qed

text \<open>
  Claim C2 as it is stated, for every name, fails: a rename to the empty name turns
  the placeholder \<^verbatim>\<open>{{x}}\<close> into \<^verbatim>\<open>{{}}\<close>, which the grammar does not match, so a
  placeholder is removed.
\<close>

theorem rename_to_empty_counterexample:
  "placeholder_names (response (init (example_props ''{{x}}'' ''''))) = [''x''] \<and>
   response (onFieldNameChange ''x'' '''' (init (example_props ''{{x}}'' ''''))) = ''{{}}'' \<and>
   placeholder_names
     (response (onFieldNameChange ''x'' '''' (init (example_props ''{{x}}'' '''')))) = []"
  by code_simp

section \<open>Insertion at the caret\<close>

lemma js_slice_0_nat: "js_slice s 0 (int n) = take n s"
  by (simp add: js_slice_def Let_def min_def)

lemma js_slice_0_minus1: "js_slice s 0 (- 1) = butlast s"
proof -
  have "nat (max (int (length s) - 1) 0) = length s - 1" by simp
  then show ?thesis
    by (simp add: js_slice_def Let_def butlast_conv_take)
qed

lemma js_slice_from_nat: "js_slice_from s (int n) = drop n s"
proof (cases "n \<le> length s")
  case True
  then have "nat (int (length s) - int n) = length s - n" by simp
  with True show ?thesis
    by (simp add: js_slice_from_def js_slice_def Let_def min_def)
next
  case False
  then show ?thesis
    by (simp add: js_slice_from_def js_slice_def Let_def min_def)
qed

lemma split_before_hotkey: "split_before True prev sel = take sel prev"
  using js_slice_0_nat[of prev sel] by (simp add: split_before_def)

lemma split_before_typed:
  "split_before False prev sel = (if sel = 0 then butlast prev else take (sel - 1) prev)"
proof (cases sel)
  case 0
  then show ?thesis by (simp add: split_before_def js_slice_0_minus1)
next
  case (Suc k)
  have "int sel - 1 = int k" using Suc by simp
  then show ?thesis using Suc js_slice_0_nat[of prev k] by (simp add: split_before_def)
qed

lemma split_after_drop: "split_after prev sel = drop sel prev"
  by (simp add: split_after_def js_slice_from_nat)

lemma js_endsWith_iff: "js_endsWith s p \<longleftrightarrow> (\<exists>r. s = r @ p)"
proof
  assume "js_endsWith s p"
  then have "s = take (length s - length p) s @ p"
    by (metis append_take_drop_id js_endsWith_def)
  then show "\<exists>r. s = r @ p" ..
next
  assume "\<exists>r. s = r @ p"
  then show "js_endsWith s p" by (auto simp: js_endsWith_def)
qed

lemma normalize_before_cases:
  "normalize_before b =
     (if js_endsWith b ''{{'' then b else if js_endsWith b ''{'' then b @ ''{'' else b @ ''{{'')"
  by (simp add: normalize_before_def)

lemma endsWith_snoc_open: "js_endsWith (p @ ''{'') ''{{'' \<longleftrightarrow> js_endsWith p ''{''"
  unfolding js_endsWith_iff
proof
  assume "\<exists>r. p @ ''{'' = r @ ''{{''"
  then obtain r where "p @ ''{'' = (r @ ''{'') @ ''{''" by auto
  then have "p = r @ ''{''" by (simp only: append_same_eq)
  then show "\<exists>r. p = r @ ''{''" ..
next
  assume "\<exists>r. p = r @ ''{''"
  then show "\<exists>r. p @ ''{'' = r @ ''{{''" by auto
qed

lemma insert_placeholder_between_braces:
  assumes "prev = pre @ ''{{}}'' @ post" and "sel = length pre + 2"
  shows "insert_placeholder hk prev sel N =
           ((if \<not> hk \<and> js_endsWith pre ''{'' then butlast pre else pre) @ ''{{'' @ N @ ''}}'' @ post,
            length (if \<not> hk \<and> js_endsWith pre ''{'' then butlast pre else pre) + 2 + length N)"
proof -
  have after: "normalize_after (split_after prev sel) = ''}}'' @ post"
    by (simp add: split_after_drop assms normalize_after_def js_startsWith_def)
  show ?thesis
  proof (cases hk)
    case True
    have "split_before hk prev sel = pre @ ''{{''"
      using True by (simp add: split_before_hotkey assms)
    moreover have "js_endsWith (pre @ ''{{'') ''{{''" unfolding js_endsWith_iff by blast
    ultimately have "normalize_before (split_before hk prev sel) = pre @ ''{{''"
      by (simp add: normalize_before_cases)
    then show ?thesis using True after by (simp add: insert_placeholder_def)
  next
    case False
    have sb: "split_before hk prev sel = pre @ ''{''"
      using False by (simp add: split_before_typed assms)
    have e1: "js_endsWith (pre @ ''{'') ''{''" unfolding js_endsWith_iff by blast
    show ?thesis
    proof (cases "js_endsWith pre ''{''")
      case True
      then obtain p where p: "pre = p @ ''{''" unfolding js_endsWith_iff by blast
      have "normalize_before (pre @ ''{'') = pre @ ''{''"
        using True by (simp only: normalize_before_cases endsWith_snoc_open if_True)
      then show ?thesis
        using False True after sb by (simp add: insert_placeholder_def p)
    next
      case nope: False
      have "normalize_before (pre @ ''{'') = (pre @ ''{'') @ ''{''"
        using nope e1 by (simp only: normalize_before_cases endsWith_snoc_open if_True if_False)
      then show ?thesis
        using False nope after sb by (simp add: insert_placeholder_def)
    qed
  qed
qed

lemma get_put_ref [simp]:
  "get_ref b (put_ref b r s) = r"
  "get_ref b (setter b' v s) = get_ref b s"
  by (cases b; cases b'; simp add: get_ref_def put_ref_def setter_def)+

lemma put_ref_twice [simp]: "put_ref b r (put_ref b r' s) = put_ref b r s"
  by (cases b; simp add: put_ref_def)

lemma get_ref_flags [simp]: "get_ref b (s\<lparr>hotkey := h, auto := a\<rparr>) = get_ref b s"
  by (cases b; simp add: get_ref_def)

lemma insert_placeholder_caret_le:
  "snd (insert_placeholder hk prev sel lbl) \<le> length (fst (insert_placeholder hk prev sel lbl))"
  by (simp add: insert_placeholder_def Let_def)

lemma onAutoComplete_textarea:
  assumes "auto s = buffer_id b"
  shows "ta_value (get_ref b (onAutoComplete b lbl s))
           = fst (insert_placeholder (hotkey s) (ta_value (get_ref b s)) (selectionStart (get_ref b s)) lbl)"
    and "selectionStart (get_ref b (onAutoComplete b lbl s))
           = snd (insert_placeholder (hotkey s) (ta_value (get_ref b s)) (selectionStart (get_ref b s)) lbl)"
    and "auto (onAutoComplete b lbl s) = []"
    and "hotkey (onAutoComplete b lbl s) = False"
proof -
  obtain nxt caret where ip:
    "insert_placeholder (hotkey s) (ta_value (get_ref b s)) (selectionStart (get_ref b s)) lbl = (nxt, caret)"
    by (cases "insert_placeholder (hotkey s) (ta_value (get_ref b s)) (selectionStart (get_ref b s)) lbl")
  have le: "caret \<le> length nxt" using insert_placeholder_caret_le[of "hotkey s" "ta_value (get_ref b s)" "selectionStart (get_ref b s)" lbl] ip by simp
  have t: "(if auto s = ''history'' then Some History
            else if auto s = ''response'' then Some Response else None) = Some b"
    using assms by (cases b) auto
  have eq: "onAutoComplete b lbl s =
      (let s2 = setter b nxt (put_ref b (set_value nxt (get_ref b s)) s)
       in put_ref b (setSelectionRange caret caret (get_ref b s2)) s2)\<lparr>hotkey := False, auto := []\<rparr>"
    unfolding onAutoComplete_def t by (simp add: ip Let_def)
  show "ta_value (get_ref b (onAutoComplete b lbl s))
           = fst (insert_placeholder (hotkey s) (ta_value (get_ref b s)) (selectionStart (get_ref b s)) lbl)"
    unfolding eq ip by (simp add: Let_def setSelectionRange_def)
  show "selectionStart (get_ref b (onAutoComplete b lbl s))
           = snd (insert_placeholder (hotkey s) (ta_value (get_ref b s)) (selectionStart (get_ref b s)) lbl)"
    unfolding eq ip using le by (simp add: Let_def setSelectionRange_def)
  show "auto (onAutoComplete b lbl s) = []" "hotkey (onAutoComplete b lbl s) = False"
    unfolding eq by simp_all
qed

lemma get_signal_frame [simp]:
  "get_signal b (setter b v s) = v"
  "get_signal b (put_ref b' r s) = get_signal b s"
  "get_signal b (s\<lparr>hotkey := h, auto := a\<rparr>) = get_signal b s"
  by (cases b; cases b'; simp add: get_signal_def setter_def put_ref_def)+

lemma onAutoComplete_signal:
  assumes "auto s = buffer_id b"
  shows "get_signal b (onAutoComplete b lbl s)
           = fst (insert_placeholder (hotkey s) (ta_value (get_ref b s)) (selectionStart (get_ref b s)) lbl)"
proof -
  obtain nxt caret where ip:
    "insert_placeholder (hotkey s) (ta_value (get_ref b s)) (selectionStart (get_ref b s)) lbl = (nxt, caret)"
    by (cases "insert_placeholder (hotkey s) (ta_value (get_ref b s)) (selectionStart (get_ref b s)) lbl")
  have t: "(if auto s = ''history'' then Some History
            else if auto s = ''response'' then Some Response else None) = Some b"
    using assms by (cases b) auto
  show ?thesis
    unfolding onAutoComplete_def t by (simp add: ip Let_def)
qed

text \<open>
  Claim C3. When the suggestions of a buffer are open and the caret of its textarea
  stands between \<^verbatim>\<open>{{\<close> and \<^verbatim>\<open>}}\<close>, that is the text is \<open>pre @ ''{{}}'' @ post\<close> and the
  caret is after the opening braces, choosing the name \<open>N\<close> gives the token \<^verbatim>\<open>{{N}}\<close>
  in front of \<open>post\<close>, with the braces that were there and none added, in the textarea
  and in the signal, and the caret is right after \<open>N\<close>: at the length of the
  normalised \<^verbatim>\<open>before\<close> plus the length of \<open>N\<close>. On the hotkey path the text in front
  of the token is \<open>pre\<close>. On the path of a typed brace it is \<open>pre\<close> too, unless \<open>pre\<close>
  itself ends with an opening brace: the caret is then after three opening braces, of
  which the token keeps two. The last equation is the same for the algorithm alone.
\<close>

theorem insert_between_braces:
  assumes "auto s = buffer_id b"
    and "ta_value (get_ref b s) = pre @ ''{{}}'' @ post"
    and "selectionStart (get_ref b s) = length pre + 2"
  shows "ta_value (get_ref b (onAutoComplete b N s))
           = (if \<not> hotkey s \<and> js_endsWith pre ''{'' then butlast pre else pre)
               @ ''{{'' @ N @ ''}}'' @ post \<and>
         selectionStart (get_ref b (onAutoComplete b N s))
           = length (if \<not> hotkey s \<and> js_endsWith pre ''{'' then butlast pre else pre)
               + 2 + length N \<and>
         get_signal b (onAutoComplete b N s)
           = (if \<not> hotkey s \<and> js_endsWith pre ''{'' then butlast pre else pre)
               @ ''{{'' @ N @ ''}}'' @ post \<and>
         insert_placeholder (hotkey s) (pre @ ''{{}}'' @ post) (length pre + 2) N
           = ((if \<not> hotkey s \<and> js_endsWith pre ''{'' then butlast pre else pre)
                @ ''{{'' @ N @ ''}}'' @ post,
              length (if \<not> hotkey s \<and> js_endsWith pre ''{'' then butlast pre else pre)
                + 2 + length N)"
proof -
  have ip: "insert_placeholder (hotkey s) (ta_value (get_ref b s)) (selectionStart (get_ref b s)) N
      = ((if \<not> hotkey s \<and> js_endsWith pre ''{'' then butlast pre else pre)
                @ ''{{'' @ N @ ''}}'' @ post,
              length (if \<not> hotkey s \<and> js_endsWith pre ''{'' then butlast pre else pre)
                + 2 + length N)"
    by (rule insert_placeholder_between_braces[OF assms(2,3)])
  show ?thesis
    unfolding onAutoComplete_textarea(1,2)[OF assms(1)] onAutoComplete_signal[OF assms(1)] ip
    using ip unfolding assms(2,3) by simp
qed

theorem insert_between_braces_witness:
  "ta_value (respRef (onAutoComplete Response ''n''
      (run [InputText Response ''x{{}}y'' 3, KeyDown Response ctrl_space] (init (example_props [] [])))))
     = ''x{{n}}y'' \<and>
   selectionStart (respRef (onAutoComplete Response ''n''
      (run [InputText Response ''x{{}}y'' 3, KeyDown Response ctrl_space] (init (example_props [] [])))))
     = 4 \<and>
   insert_placeholder False ''x{{}}y'' 3 ''n'' = (''x{{n}}y'', 4) \<and>
   insert_placeholder False ''x{{{}}y'' 4 ''n'' = (''x{{n}}y'', 4)"
proof -
  let ?s = "run [InputText Response ''x{{}}y'' 3, KeyDown Response ctrl_space] (init (example_props [] []))"
  have a: "auto ?s = buffer_id Response" by code_simp
  have v: "ta_value (get_ref Response ?s) = ''x'' @ ''{{}}'' @ ''y''" by code_simp
  have c: "selectionStart (get_ref Response ?s) = length ''x'' + 2" by code_simp
  have h: "hotkey ?s" by code_simp
  have g: "get_ref Response (onAutoComplete Response ''n'' ?s) = respRef (onAutoComplete Response ''n'' ?s)"
    by (simp add: get_ref_def)
  have t: "insert_placeholder False ''x{{}}y'' 3 ''n'' = (''x{{n}}y'', 4)"
    "insert_placeholder False ''x{{{}}y'' 4 ''n'' = (''x{{n}}y'', 4)" by code_simp+
  show ?thesis
    using insert_between_braces [OF a v c, of "''n''"] h t unfolding g by simp
qed

text \<open>
  Claim C6, as amended. On the hotkey path in an empty buffer, choosing the name
  \<^verbatim>\<open>foo\<close> gives the text \<^verbatim>\<open>{{foo}}\<close> with the caret at offset 5, right after \<^verbatim>\<open>foo\<close>,
  which is the length of \<^verbatim>\<open>{{foo\<close>: for the algorithm alone, and for the component
  after the hotkey in the response textarea and the choice of the suggestion.
\<close>

theorem insert_from_scratch:
  "insert_placeholder True [] 0 ''foo'' = (''{{foo}}'', 5) \<and>
   ta_value (respRef (run [KeyDown Response ctrl_space, Select ''foo''] (init (example_props [] []))))
     = ''{{foo}}'' \<and>
   selectionStart (respRef (run [KeyDown Response ctrl_space, Select ''foo''] (init (example_props [] []))))
     = 5 \<and>
   response (run [KeyDown Response ctrl_space, Select ''foo''] (init (example_props [] [])))
     = ''{{foo}}''"
  by code_simp

text \<open>
  Claim C6 as it is stated puts the caret at offset 6, which is not where the
  component puts it and not the length of \<^verbatim>\<open>{{foo\<close>.
\<close>

theorem insert_from_scratch_counterexample:
  "selectionStart (respRef (run [KeyDown Response ctrl_space, Select ''foo''] (init (example_props [] []))))
     \<noteq> 6 \<and> snd (insert_placeholder True [] 0 ''foo'') \<noteq> 6 \<and> length ''{{foo'' \<noteq> 6"
  by code_simp

text \<open>
  Claim C10. On the path of a typed brace \<^verbatim>\<open>before\<close> is \<^verbatim>\<open>prev.slice(0, caret - 1)\<close>. At
  caret 0 the index is -1 and \<^verbatim>\<open>before\<close> is the buffer without its last code unit,
  which is the empty string only for a buffer of at most one code unit. From caret 1
  on it is the text up to the caret less one code unit, as the split is specified; on
  the hotkey path it is the text up to the caret.
\<close>

theorem split_before_needs_caret:
  "split_before False prev 0 = butlast prev \<and>
   (split_before False prev 0 = [] \<longleftrightarrow> length prev \<le> 1) \<and>
   (1 \<le> sel \<longrightarrow> split_before False prev sel = take (sel - 1) prev) \<and>
   split_before True prev sel = take sel prev"
proof -
  have "butlast prev = [] \<longleftrightarrow> length prev \<le> 1"
    by (cases prev rule: rev_cases) auto
  then show ?thesis
    by (simp add: split_before_typed split_before_hotkey)
qed

theorem split_before_needs_caret_witness:
  "split_before False ''ab'' 0 = ''a'' \<and> split_before False ''ab'' 1 = [] \<and>
   split_before True ''ab'' 1 = ''a'' \<and>
   insert_placeholder False ''ab'' 0 ''n'' = (''a{{n}}ab'', 4)"
proof -
  have "insert_placeholder False ''ab'' 0 ''n'' = (''a{{n}}ab'', 4)" by code_simp
  then show ?thesis
    using split_before_needs_caret [of "''ab''" 1] by simp
qed

section \<open>The diagnostics that are shown\<close>

text \<open>
  Claim C4, at the input where the component departs from it. The response template
  \<^verbatim>\<open>{{mp}}\<close> is typed with no field defined, and the diagnostic is \<^verbatim>\<open>mp\<close>. The template
  is then emptied: the new text has no placeholder and its unresolved list is empty,
  but the match is \<^verbatim>\<open>null\<close>, the branch that writes the diagnostic is skipped, and the
  diagnostic shown is still \<^verbatim>\<open>mp\<close>.
\<close>

theorem stale_diagnostic_after_clearing:
  "resErr (step (InputText Response ''{{mp}}'' 6) (init (example_props [] []))) = ''mp'' \<and>
   response (step (InputText Response [] 0)
       (step (InputText Response ''{{mp}}'' 6) (init (example_props [] [])))) = [] \<and>
   unresolved [] (names_of (step (InputText Response [] 0)
       (step (InputText Response ''{{mp}}'' 6) (init (example_props [] []))))) = [] \<and>
   resErr (step (InputText Response [] 0)
       (step (InputText Response ''{{mp}}'' 6) (init (example_props [] [])))) = ''mp''"
  by code_simp

text \<open>
  Claim C8, as amended. For every buffer whose unresolved list is not empty, the error
  text that the effect writes is that list joined with a comma and a space, in the
  order of the text and with every duplicate kept; for the response buffer and for
  the history buffer.
\<close>

theorem error_text_joins_raw_list:
  "(unresolved (response s) (names_of s) \<noteq> [] \<longrightarrow>
      resErr (validation_effect s) = js_join (unresolved (response s) (names_of s)) '', '') \<and>
   (unresolved (hist s) (names_of s) \<noteq> [] \<longrightarrow>
      histErr (validation_effect s) = js_join (unresolved (hist s) (names_of s)) '', '')"
  by (auto simp: validation_effect_def next_err_def unresolved_def split: option.splits)

theorem error_text_joins_raw_list_witness:
  "unresolved (response (init (example_props ''{{mp}} {{hp}} {{mp}}'' ''{{a}}{{a}}'')))
     (names_of (init (example_props ''{{mp}} {{hp}} {{mp}}'' ''{{a}}{{a}}'')))
     = [''mp'', ''hp'', ''mp''] \<and>
   resErr (validation_effect (init (example_props ''{{mp}} {{hp}} {{mp}}'' ''{{a}}{{a}}'')))
     = ''mp, hp, mp'' \<and>
   histErr (validation_effect (init (example_props ''{{mp}} {{hp}} {{mp}}'' ''{{a}}{{a}}'')))
     = ''a, a''"
proof -
  let ?s = "init (example_props ''{{mp}} {{hp}} {{mp}}'' ''{{a}}{{a}}'')"
  have u: "unresolved (response ?s) (names_of ?s) = [''mp'', ''hp'', ''mp'']"
    and v: "unresolved (hist ?s) (names_of ?s) = [''a'', ''a'']"
    by code_simp+
  show ?thesis
    using error_text_joins_raw_list [of ?s] unfolding u v by simp
qed

text \<open>
  Claim C8 as it is stated asks for each name once. The component shows \<^verbatim>\<open>mp, mp\<close> for
  a template with the unresolved placeholder \<^verbatim>\<open>{{mp}}\<close> twice, where the distinct names
  joined are \<^verbatim>\<open>mp\<close>.
\<close>

theorem error_text_duplicates_counterexample:
  "unresolved ''{{mp}} {{mp}}''
     (names_of (step (InputText Response ''{{mp}} {{mp}}'' 13) (init (example_props [] []))))
     = [''mp'', ''mp''] \<and>
   js_join (remdups [''mp'', ''mp'']) '', '' = ''mp'' \<and>
   resErr (step (InputText Response ''{{mp}} {{mp}}'' 13) (init (example_props [] []))) = ''mp, mp'' \<and>
   resErr (step (InputText Response ''{{mp}} {{mp}}'' 13) (init (example_props [] [])))
     \<noteq> js_join (remdups [''mp'', ''mp'']) '', ''"
  by code_simp

section \<open>Commit and import\<close>

text \<open>
  Claim C5, as amended. What is sent to the update callback and to persistence
  changes only by \<^verbatim>\<open>close(true)\<close>, which the accept action calls and which a successful
  import calls too: every other event leaves it as it is; the accept action sends
  the candidate schema and the two templates; a successful import replaces the
  candidate schema and both templates by the imported ones and sends the imported
  triple at once.
\<close>

theorem commit_by_accept_and_import:
  "((e \<noteq> Accept \<and> (\<forall>sch. e \<noteq> Import (Closed (Some sch)))) \<longrightarrow>
      updates (step e s) = updates s \<and>
      character_edits (step e s) = character_edits s \<and>
      preset_updates (step e s) = preset_updates s) \<and>
   updates (step Accept s)
     = updates s @ [\<lparr>rs_schema = candidate s, rs_response = response s, rs_history = hist s\<rparr>] \<and>
   updates (step (Import (Closed (Some r))) s) = updates s @ [r] \<and>
   candidate (step (Import (Closed (Some r))) s) = rs_schema r \<and>
   response (step (Import (Closed (Some r))) s) = rs_response r \<and>
   hist (step (Import (Closed (Some r))) s) = rs_history r"
proof -
  have frame: "updates (step e s) = updates s \<and>
      character_edits (step e s) = character_edits s \<and>
      preset_updates (step e s) = preset_updates s"
    if "e \<noteq> Accept" and "\<And>sch. e \<noteq> Import (Closed (Some sch))"
  proof (cases e)
    case (Import out)
    with that(2) have "\<And>sch. out \<noteq> Closed (Some sch)" by auto
    from import_outcome_step_commits[OF this] Import show ?thesis by simp
  qed (use that in simp_all)
  have imp: "step (Import (Closed (Some r))) s
      = close True (setResponse (rs_response r) (setHistory (rs_history r)
          (setCandidate False (rs_schema r) (s\<lparr>showImport := False\<rparr>))))"
    by (simp add: import_outcome_step_def importSchema_def)
  have "\<lparr>rs_schema = rs_schema r, rs_response = rs_response r, rs_history = rs_history r\<rparr> = r"
    by simp
  then have "updates (step (Import (Closed (Some r))) s) = updates s @ [r]"
    unfolding imp by (simp add: close_True_updates)
  moreover have "candidate (step (Import (Closed (Some r))) s) = rs_schema r"
    and "response (step (Import (Closed (Some r))) s) = rs_response r"
    and "hist (step (Import (Closed (Some r))) s) = rs_history r"
    unfolding imp by simp_all
  ultimately show ?thesis using frame by (simp add: close_True_updates)
qed

theorem commit_by_accept_and_import_witness:
  "updates (step Cancel (init (example_props ''{{x}}'' ''y''))) = [] \<and>
   updates (step Accept (init (example_props ''{{x}}'' ''y'')))
     = [\<lparr>rs_schema = [], rs_response = ''{{x}}'', rs_history = ''y''\<rparr>] \<and>
   updates (step (Import (Closed (Some example_schema))) (init (example_props ''{{x}}'' ''y'')))
     = [example_schema]"
proof -
  have i: "updates (init (example_props ''{{x}}'' ''y'')) = []"
    "candidate (init (example_props ''{{x}}'' ''y'')) = []"
    "response (init (example_props ''{{x}}'' ''y'')) = ''{{x}}''"
    "hist (init (example_props ''{{x}}'' ''y'')) = ''y''"
    by code_simp+
  show ?thesis
    using commit_by_accept_and_import
      [of Cancel "init (example_props ''{{x}}'' ''y'')" example_schema]
    by (simp add: i)
qed

text \<open>
  Claim C5 as it is stated has the import replace the candidate state only. The
  component commits: after the import alone the update callback has received the
  imported triple.
\<close>

theorem import_commits_counterexample:
  "updates (step (Import (Closed (Some example_schema))) (init (example_props ''{{x}}'' ''y'')))
     \<noteq> updates (init (example_props ''{{x}}'' ''y'')) \<and>
   updates (init (example_props ''{{x}}'' ''y'')) = [] \<and>
   updates (step (Import (Closed (Some example_schema))) (init (example_props ''{{x}}'' ''y'')))
     = [example_schema]"
  by code_simp

lemma assert_fields_find:
  "assert_fields env fs =
     map_option (error_message env field_shape) (find (\<lambda>f. \<not> conforms field_shape f) fs)"
  by (induction fs) (auto simp: assertValid_def)

lemma conforms_checked_shape:
  "conforms checked_shape j \<longleftrightarrow>
     conforms document_shape j \<and> list_all (conforms field_shape) (schema_items j)"
proof (cases j)
  case (JObj kv)
  show ?thesis
  proof (cases "map_of kv ''schema''")
    case None
    with JObj show ?thesis
      by (simp add: checked_shape_def document_shape_def)
  next
    case (Some v)
    with JObj show ?thesis
      by (cases v) (auto simp: checked_shape_def document_shape_def schema_items_def get_prop_def
          list_all_iff split: option.splits)
  qed
qed (simp_all add: checked_shape_def document_shape_def)

lemma first_failure_None_iff: "first_failure j = None \<longleftrightarrow> conforms checked_shape j"
  by (auto simp: first_failure_def conforms_checked_shape find_None_iff list_all_iff)

lemma first_failure_Some:
  "first_failure j = Some (d, v) \<Longrightarrow> \<not> conforms d v"
  by (auto simp: first_failure_def find_Some_iff split: if_splits)

lemma onUpdate_parsed:
  assumes "JSON_parse env content = Inr j"
  shows "onUpdate env (Inr content # files) =
           (case first_failure j of
              Some (d, v) \<Rightarrow> Rejected (error_message env d v)
            | None \<Rightarrow> Closed (as_ResponseSchema j))"
  using assms
  by (cases "find (\<lambda>f. \<not> conforms field_shape f) (schema_items j)")
     (auto simp: onUpdate_def first_failure_def assertValid_def assert_fields_find)

lemma conforms_not_falsy: "conforms document_shape j \<Longrightarrow> \<not> falsy j"
  by (cases j) (simp_all add: document_shape_def falsy_def)

text \<open>
  Claim C7, as amended. The shape that the component checks is
  \<^verbatim>\<open>{ response: string, history: string, schema: array of { name: string, type: { type: string } } }\<close>,
  with more keys allowed. When the content of the file does not parse, the import
  ends with the error notification \<^verbatim>\<open>Invalid JSON Schema:\<close> followed by the message of
  the parser, and nothing else of the session changes. When it parses to a value
  that does not have this shape, a check rejects the value it is applied to, the
  document or its first field that does not conform, and the import ends with the
  notification that carries the message of that check, and nothing else of the
  session changes: the candidate schema, the two templates and what has been
  committed are what they were. A value that has the shape is imported.
\<close>

theorem import_failure_leaves_state:
  "(JSON_parse env content = Inl msg \<longrightarrow>
      import_files env (Inr content # files) s
        = s\<lparr>toasts := toasts s @ [''Invalid JSON Schema: '' @ msg]\<rparr>) \<and>
   (JSON_parse env content = Inr j \<and> \<not> conforms checked_shape j \<longrightarrow>
      (\<exists>d v. first_failure j = Some (d, v) \<and> \<not> conforms d v \<and>
         import_files env (Inr content # files) s
           = s\<lparr>toasts := toasts s @ [''Invalid JSON Schema: '' @ error_message env d v]\<rparr>)) \<and>
   (JSON_parse env content = Inr j \<and> conforms checked_shape j \<longrightarrow>
      (\<exists>r. as_ResponseSchema j = Some r \<and>
         import_files env (Inr content # files) s = importSchema (Some r) s))"
proof (intro conjI impI)
  assume "JSON_parse env content = Inl msg"
  then have "onUpdate env (Inr content # files) = Rejected msg"
    by (simp add: onUpdate_def)
  then show "import_files env (Inr content # files) s
        = s\<lparr>toasts := toasts s @ [''Invalid JSON Schema: '' @ msg]\<rparr>"
    by (simp add: import_files_def import_outcome_step_def)
next
  assume a: "JSON_parse env content = Inr j \<and> \<not> conforms checked_shape j"
  then have "first_failure j \<noteq> None" by (simp add: first_failure_None_iff)
  then obtain d v where f: "first_failure j = Some (d, v)" by (cases "first_failure j") auto
  have "onUpdate env (Inr content # files) = Rejected (error_message env d v)"
    using a f by (simp add: onUpdate_parsed)
  then have "import_files env (Inr content # files) s
           = s\<lparr>toasts := toasts s @ [''Invalid JSON Schema: '' @ error_message env d v]\<rparr>"
    by (simp add: import_files_def import_outcome_step_def)
  with f first_failure_Some[OF f]
  show "\<exists>d v. first_failure j = Some (d, v) \<and> \<not> conforms d v \<and>
         import_files env (Inr content # files) s
           = s\<lparr>toasts := toasts s @ [''Invalid JSON Schema: '' @ error_message env d v]\<rparr>"
    by blast
next
  assume a: "JSON_parse env content = Inr j \<and> conforms checked_shape j"
  then have n: "first_failure j = None" by (simp add: first_failure_None_iff)
  from a have "conforms document_shape j" by (simp add: conforms_checked_shape)
  then have "\<not> falsy j" by (rule conforms_not_falsy)
  then obtain r where r: "as_ResponseSchema j = Some r" by (simp add: as_ResponseSchema_def)
  have "onUpdate env (Inr content # files) = Closed (Some r)"
    using a n r by (simp add: onUpdate_parsed)
  then have "import_files env (Inr content # files) s = importSchema (Some r) s"
    by (simp add: import_files_def import_outcome_step_def)
  with r show "\<exists>r. as_ResponseSchema j = Some r \<and>
         import_files env (Inr content # files) s = importSchema (Some r) s"
    by blast
qed

theorem import_failure_leaves_state_witness:
  "import_files example_env [Inr ''not json''] (init (example_props ''{{x}}'' ''y''))
     = (init (example_props ''{{x}}'' ''y''))
         \<lparr>toasts := [''Invalid JSON Schema: Unexpected token'']\<rparr> \<and>
   \<not> conforms checked_shape string_type_doc \<and>
   import_files example_env [Inr string_type_text] (init (example_props ''{{x}}'' ''y''))
     = (init (example_props ''{{x}}'' ''y''))
         \<lparr>toasts := [''Invalid JSON Schema: does not match the expected shape'']\<rparr>"
proof -
  let ?s = "init (example_props ''{{x}}'' ''y'')"
  have p: "JSON_parse example_env ''not json'' = Inl ''Unexpected token''"
    by code_simp
  have q: "JSON_parse example_env string_type_text = Inr string_type_doc"
    by code_simp
  have c: "\<not> conforms checked_shape string_type_doc" by code_simp
  have m: "error_message example_env d v = ''does not match the expected shape''" for d v
    by (simp add: example_env_def)
  have t: "toasts ?s = []" by code_simp
  show ?thesis
    using import_failure_leaves_state
            [of example_env "''not json''" "''Unexpected token''" "[]" ?s]
          import_failure_leaves_state
            [of example_env string_type_text _ "[]" ?s string_type_doc]
          p q c
    by (auto simp: t m)
qed

text \<open>
  Claim C7 as it is stated takes the type of a field to be a string. A document
  whose field has an object with its own type as its type does not have that shape,
  and the component imports it: the candidate schema and the templates are replaced,
  the imported triple is committed, and nothing is notified.
\<close>

theorem import_object_type_counterexample:
  "JSON_parse example_env object_type_text = Inr object_type_doc \<and>
   \<not> conforms spec_shape object_type_doc \<and>
   candidate (init (example_props ''{{x}}'' ''y'')) = [] \<and>
   candidate (import_files example_env [Inr object_type_text] (init (example_props ''{{x}}'' ''y'')))
     = [\<lparr>name = ''hp'', ftype = ''number''\<rparr>] \<and>
   response (import_files example_env [Inr object_type_text] (init (example_props ''{{x}}'' ''y'')))
     = ''HP: {{hp}}'' \<and>
   updates (import_files example_env [Inr object_type_text] (init (example_props ''{{x}}'' ''y'')))
     = [example_schema] \<and>
   toasts (import_files example_env [Inr object_type_text] (init (example_props ''{{x}}'' ''y'')))
     = []"
  by code_simp

section \<open>The autocomplete trigger\<close>

text \<open>
  Claim C9. In every state that the component reaches, at most one of the two
  buffers is suggesting; and a key that opens the suggestions of a buffer, the
  opening brace or the hotkey, leaves that buffer suggesting and the other one idle.
\<close>

theorem one_buffer_suggesting:
  "\<not> (suggesting Response (run evs (init p)) \<and> suggesting History (run evs (init p))) \<and>
   ((key ev = ''{'' \<or> (ctrlKey ev \<and> code ev = ''Space'')) \<longrightarrow>
      suggesting b (step (KeyDown b ev) s) \<and> \<not> suggesting (other b) (step (KeyDown b ev) s))"
proof -
  have "\<not> (suggesting Response t \<and> suggesting History t)" for t
    by (auto simp: suggesting_def)
  moreover have "suggesting b (step (KeyDown b ev) s) \<and> \<not> suggesting (other b) (step (KeyDown b ev) s)"
    if "key ev = ''{'' \<or> (ctrlKey ev \<and> code ev = ''Space'')"
    using that by (cases b) (auto simp: suggesting_def onKeyDown_def Let_def)
  ultimately show ?thesis by blast
qed

theorem one_buffer_suggesting_witness:
  "suggesting Response (run [KeyDown Response open_brace] (init (example_props [] []))) \<and>
   suggesting History
     (step (KeyDown History ctrl_space) (run [KeyDown Response open_brace] (init (example_props [] [])))) \<and>
   \<not> suggesting Response
     (step (KeyDown History ctrl_space) (run [KeyDown Response open_brace] (init (example_props [] []))))"
proof -
  have k: "ctrlKey ctrl_space \<and> code ctrl_space = ''Space''" by (simp add: ctrl_space_def)
  have r: "suggesting Response (run [KeyDown Response open_brace] (init (example_props [] [])))"
    by code_simp
  show ?thesis
    using one_buffer_suggesting
      [of "[KeyDown Response open_brace]" "example_props [] []" ctrl_space History
          "run [KeyDown Response open_brace] (init (example_props [] []))"] k r
    by simp
qed

end
